theory Spec2Isabelle
  imports Complex_Main "HOL-Library.Stream"
begin

section \<open>Python values used by data\_generation.py\<close>

text \<open>
  A Python \<^verbatim>\<open>str\<close> is a sequence of Unicode code points, so a character is its code
  point (a natural number) and a string is a list of them.  An Isabelle \<open>char\<close> is one
  byte and could not hold the code points above 255 that \<^verbatim>\<open>ord\<close> can return.
\<close>

type_synonym pystr = "nat list"

text \<open>A string literal of the source, written with an Isabelle literal.\<close>

definition str :: "string \<Rightarrow> pystr" where
  "str s = map of_char s"

datatype error = TypeError | ValueError | IndexError

subsection \<open>The builtins \<^verbatim>\<open>bin\<close>, \<^verbatim>\<open>ord\<close>, \<^verbatim>\<open>chr\<close> and the format spec \<^verbatim>\<open>0>w\<close>\<close>

text \<open>The binary digits of a natural number, most significant first; \<open>0\<close> is \<^verbatim>\<open>0\<close>.\<close>

fun bin_digits :: "nat \<Rightarrow> pystr" where
  "bin_digits n =
     (if n < 2 then (if n = 0 then str ''0'' else str ''1'')
      else bin_digits (n div 2) @ (if n mod 2 = 0 then str ''0'' else str ''1''))"

declare bin_digits.simps [simp del]

text \<open>\<^verbatim>\<open>bin(n)\<close>: the prefix \<^verbatim>\<open>0b\<close>, after a minus sign when \<open>n\<close> is negative.\<close>

definition bin :: "int \<Rightarrow> pystr" where
  "bin n = (if n < 0 then str ''-0b'' @ bin_digits (nat (- n))
            else str ''0b'' @ bin_digits (nat n))"

text \<open>\<^verbatim>\<open>ord(s)\<close> raises \<^verbatim>\<open>TypeError\<close> unless \<open>s\<close> has exactly one character.\<close>

definition ord :: "pystr \<Rightarrow> error + int" where
  "ord s = (case s of [c] \<Rightarrow> Inr (int c) | _ \<Rightarrow> Inl TypeError)"

text \<open>\<^verbatim>\<open>chr(i)\<close> raises \<^verbatim>\<open>ValueError\<close> outside \<^verbatim>\<open>range(0x110000)\<close>.\<close>

definition chr :: "int \<Rightarrow> error + pystr" where
  "chr i = (if 0 \<le> i \<and> i < 1114112 then Inr [nat i] else Inl ValueError)"

text \<open>
  \<^verbatim>\<open>f"{s:0>w}"\<close>: fill character \<^verbatim>\<open>0\<close>, right-aligned in a field of minimum width \<open>w\<close>.
  A string longer than \<open>w\<close> is left as it is.
\<close>

definition format_zero_right :: "nat \<Rightarrow> pystr \<Rightarrow> pystr" where
  "format_zero_right w s = replicate (w - length s) (of_char CHR ''0'') @ s"

section \<open>\<^verbatim>\<open>generate_string\<close>\<close>

text \<open>
  \<^verbatim>\<open>
  def generate_string(size_valid: bool, size: int, data_valid: bool, data: str) -> str:
      size_valid = "1" if size_valid else "0"
      size = f"{bin(size)[2:]:0>32}"
      data_valid = "1" if data_valid else "0"
      data = f"{bin(ord(data))[2:]:0>8}"
      return f"{size_valid}_{size}_{data_valid}_{data}"
  \<close>
  The only statement that can raise is \<^verbatim>\<open>ord(data)\<close>.  The parameter \<^verbatim>\<open>size\<close> is
  called \<open>sz\<close> here (\<open>size\<close> is a constant of HOL); a primed name is the rebound variable.
\<close>

definition generate_string :: "bool \<Rightarrow> int \<Rightarrow> bool \<Rightarrow> pystr \<Rightarrow> error + pystr" where
  "generate_string size_valid sz data_valid data =
     (let size_valid' = (if size_valid then str ''1'' else str ''0'');
          sz' = format_zero_right 32 (drop 2 (bin sz));
          data_valid' = (if data_valid then str ''1'' else str ''0'')
      in case ord data of
           Inl e \<Rightarrow> Inl e
         | Inr code \<Rightarrow>
             (let data' = format_zero_right 8 (drop 2 (bin code))
              in Inr (size_valid' @ str ''_'' @ sz' @ str ''_'' @ data_valid' @ str ''_'' @ data')))"

text \<open>
  The string \<^verbatim>\<open>generate_string\<close> returns for a one-character \<^verbatim>\<open>data\<close> with code point
  \<open>c\<close> (lemma \<open>generate_string_single\<close> below).
\<close>

definition frame_text :: "bool \<Rightarrow> int \<Rightarrow> bool \<Rightarrow> nat \<Rightarrow> pystr" where
  "frame_text size_valid sz data_valid c =
     (if size_valid then str ''1'' else str ''0'') @ str ''_'' @
     format_zero_right 32 (drop 2 (bin sz)) @ str ''_'' @
     (if data_valid then str ''1'' else str ''0'') @ str ''_'' @
     format_zero_right 8 (drop 2 (bin (int c)))"

section \<open>The \<^verbatim>\<open>random\<close> module\<close>

text \<open>
  The generator is hidden global state.  Here it is the sequence of values each kind of call
  will return: the results of \<^verbatim>\<open>random()\<close>, and for each pair of arguments the results of
  \<^verbatim>\<open>randint(a, b)\<close>.  \<^verbatim>\<open>uniform(a, b)\<close> is \<^verbatim>\<open>a + (b - a) * random()\<close>, as in the library;
  for \<^verbatim>\<open>uniform(0, 1)\<close> that is the value of \<^verbatim>\<open>random()\<close> itself.  Floats are compared by
  value, so they are modelled as reals.
\<close>

record rand_state =
  random_draws :: "real stream"
  randint_draws :: "int \<times> int \<Rightarrow> int stream"

definition uniform :: "real \<Rightarrow> real \<Rightarrow> rand_state \<Rightarrow> real \<times> rand_state" where
  "uniform a b g =
     (a + (b - a) * shd (random_draws g), g\<lparr>random_draws := stl (random_draws g)\<rparr>)"

text \<open>Both calls of \<^verbatim>\<open>randint\<close> in the source have \<open>a \<le> b\<close>, so it never raises there.\<close>

definition randint :: "int \<Rightarrow> int \<Rightarrow> rand_state \<Rightarrow> int \<times> rand_state" where
  "randint a b g =
     (shd (randint_draws g (a, b)),
      g\<lparr>randint_draws := (randint_draws g)((a, b) := stl (randint_draws g (a, b)))\<rparr>)"

text \<open>
  What the library promises of the draws: \<^verbatim>\<open>random()\<close> lies in \<open>[0, 1)\<close>, and
  \<^verbatim>\<open>randint(a, b)\<close> lies in \<open>[a, b]\<close>, both end points included.
\<close>

definition rand_contract :: "rand_state \<Rightarrow> bool" where
  "rand_contract g \<longleftrightarrow>
     (\<forall>x \<in> sset (random_draws g). 0 \<le> x \<and> x < 1) \<and>
     (\<forall>a b. a \<le> b \<longrightarrow> (\<forall>n \<in> sset (randint_draws g (a, b)). a \<le> n \<and> n \<le> b))"

section \<open>\<^verbatim>\<open>generate_datafile\<close>\<close>

text \<open>
  A statement either completes or raises; a loop that never returns has no outcome at all
  (\<open>None\<close>).  \<^verbatim>\<open>open\<close> and \<^verbatim>\<open>write\<close> are taken to succeed: failures of the file system
  are outside the model.
\<close>

datatype completion = Normal | Raised error

definition nl :: pystr where
  "nl = [10]"

definition nul :: pystr where
  "nul = [0]"

text \<open>
  The first \<^verbatim>\<open>while True\<close> loop.  \<open>datafile\<close> is the text written to the open file so far.
  \<^verbatim>\<open>
  while True:
      random_number = rand.uniform(0, 1)
      if random_number < random_value_chance:
          datafile.write(generate_string(True, len(data), False, "\0") + "\n")
          break
      else:
          datafile.write(generate_string(False, rand.randint(0, 2**32), False, "\0") + "\n")
  \<close>
\<close>

partial_function (option) preamble_loop ::
  "pystr \<Rightarrow> real \<Rightarrow> rand_state \<Rightarrow> pystr \<Rightarrow> (completion \<times> rand_state \<times> pystr) option" where
  "preamble_loop data random_value_chance g datafile =
     (case uniform 0 1 g of (random_number, g1) \<Rightarrow>
        if random_number < random_value_chance then
          (case generate_string True (int (length data)) False nul of
             Inl e \<Rightarrow> Some (Raised e, g1, datafile)
           | Inr s \<Rightarrow> Some (Normal, g1, datafile @ s @ nl))
        else
          (case randint 0 (2 ^ 32) g1 of (n, g2) \<Rightarrow>
             (case generate_string False n False nul of
                Inl e \<Rightarrow> Some (Raised e, g2, datafile)
              | Inr s \<Rightarrow> preamble_loop data random_value_chance g2 (datafile @ s @ nl))))"

text \<open>
  The inner \<^verbatim>\<open>while True\<close> loop, for the character \<open>c\<close> of \<^verbatim>\<open>data\<close>.  Arguments are
  evaluated left to right: the size is drawn before the noise character.
  \<^verbatim>\<open>
  while True:
      random_number = rand.uniform(0, 1)
      if random_number < random_value_chance:
          datafile.write(generate_string(False, rand.randint(0, 2**32), True, c) + "\n")
          break
      else:
          datafile.write(generate_string(False, rand.randint(0, 2**32), False,
                                         chr(rand.randint(65, 122))) + "\n")
  \<close>
\<close>

partial_function (option) char_loop ::
  "nat \<Rightarrow> real \<Rightarrow> rand_state \<Rightarrow> pystr \<Rightarrow> (completion \<times> rand_state \<times> pystr) option" where
  "char_loop c random_value_chance g datafile =
     (case uniform 0 1 g of (random_number, g1) \<Rightarrow>
        if random_number < random_value_chance then
          (case randint 0 (2 ^ 32) g1 of (n, g2) \<Rightarrow>
             (case generate_string False n True [c] of
                Inl e \<Rightarrow> Some (Raised e, g2, datafile)
              | Inr s \<Rightarrow> Some (Normal, g2, datafile @ s @ nl)))
        else
          (case randint 0 (2 ^ 32) g1 of (n, g2) \<Rightarrow>
             (case randint 65 122 g2 of (k, g3) \<Rightarrow>
                (case chr k of
                   Inl e \<Rightarrow> Some (Raised e, g3, datafile)
                 | Inr noise \<Rightarrow>
                     (case generate_string False n False noise of
                        Inl e \<Rightarrow> Some (Raised e, g3, datafile)
                      | Inr s \<Rightarrow> char_loop c random_value_chance g3 (datafile @ s @ nl))))))"

text \<open>\<^verbatim>\<open>for c in data:\<close> around the inner loop.\<close>

fun for_loop ::
  "pystr \<Rightarrow> real \<Rightarrow> rand_state \<Rightarrow> pystr \<Rightarrow> (completion \<times> rand_state \<times> pystr) option" where
  "for_loop [] random_value_chance g datafile = Some (Normal, g, datafile)"
| "for_loop (c # cs) random_value_chance g datafile =
     (case char_loop c random_value_chance g datafile of
        None \<Rightarrow> None
      | Some (Raised e, g', datafile') \<Rightarrow> Some (Raised e, g', datafile')
      | Some (Normal, g', datafile') \<Rightarrow> for_loop cs random_value_chance g' datafile')"

text \<open>What the program can change outside itself: the files, by name, and standard output.\<close>

record world =
  files :: "pystr \<rightharpoonup> pystr"
  stdout :: pystr

definition print :: "pystr \<Rightarrow> world \<Rightarrow> world" where
  "print s w = w\<lparr>stdout := stdout w @ s @ nl\<rparr>"

text \<open>
  \<^verbatim>\<open>
  def generate_datafile(filename,data,random_value_chance):
      print(f"Generating data for string: {data}")
      with open(filename, "w") as datafile:
          datafile.write(f"# {data}\n")
          <first loop>
          <for loop>
  \<close>
  Leaving the \<^verbatim>\<open>with\<close> block closes the file, also when an exception leaves it; the file
  then holds what was written.
\<close>

definition generate_datafile ::
  "pystr \<Rightarrow> pystr \<Rightarrow> real \<Rightarrow> rand_state \<Rightarrow> world \<Rightarrow> (completion \<times> rand_state \<times> world) option" where
  "generate_datafile filename data random_value_chance g w =
     (let w1 = print (str ''Generating data for string: '' @ data) w;
          datafile = str ''# '' @ data @ nl
      in case preamble_loop data random_value_chance g datafile of
           None \<Rightarrow> None
         | Some (Raised e, g', datafile') \<Rightarrow>
             Some (Raised e, g', w1\<lparr>files := (files w1)(filename \<mapsto> datafile')\<rparr>)
         | Some (Normal, g', datafile') \<Rightarrow>
             (case for_loop data random_value_chance g' datafile' of
                None \<Rightarrow> None
              | Some (r, g'', datafile'') \<Rightarrow>
                  Some (r, g'', w1\<lparr>files := (files w1)(filename \<mapsto> datafile'')\<rparr>)))"

section \<open>The script\<close>

text \<open>
  \<^verbatim>\<open>
  dat = ascii(sys.argv[1])
  print(f"Generating data for string: {dat}")
  generate_datafile(dat.lower(),dat,0.25)
  \<close>
  The builtins \<^verbatim>\<open>ascii\<close> and \<^verbatim>\<open>str.lower\<close> are parameters: nothing proved here depends
  on what they return.  \<^verbatim>\<open>sys.argv[1]\<close> raises \<^verbatim>\<open>IndexError\<close> when the list is too short.
\<close>

definition main ::
  "(pystr \<Rightarrow> pystr) \<Rightarrow> (pystr \<Rightarrow> pystr) \<Rightarrow> pystr list \<Rightarrow> rand_state \<Rightarrow> world \<Rightarrow>
     (completion \<times> rand_state \<times> world) option" where
  "main ascii lower argv g w =
     (if length argv \<le> 1 then Some (Raised IndexError, g, w)
      else
        (let dat = ascii (argv ! 1);
             w1 = print (str ''Generating data for string: '' @ dat) w
         in generate_datafile (lower dat) dat (1 / 4) g w1))"

section \<open>Reading a frame and a data file\<close>

text \<open>
  The repository has no reader.  The definitions of this section say what the specification
  means by the grammar of a frame, by decoding a field, and by the lines and frames of a
  file; they follow the specification, not the source.
\<close>

definition is_bit :: "nat \<Rightarrow> bool" where
  "is_bit c = (c = of_char CHR ''0'' \<or> c = of_char CHR ''1'')"

text \<open>
  The grammar \<^verbatim>\<open>^[01]_[01]{32}_[01]_[01]{8}$\<close>, as a full match: a bit, an underscore, 32
  bits, an underscore, a bit, an underscore, 8 bits and nothing after them.
\<close>

definition frame_grammar :: "pystr \<Rightarrow> bool" where
  "frame_grammar s =
     (case s of
        a # u1 # r \<Rightarrow>
          is_bit a \<and> [u1] = str ''_'' \<and>
          length (take 32 r) = 32 \<and> list_all is_bit (take 32 r) \<and>
          (case drop 32 r of
             u2 # b # u3 # d \<Rightarrow>
               [u2] = str ''_'' \<and> is_bit b \<and> [u3] = str ''_'' \<and>
               length d = 8 \<and> list_all is_bit d
           | _ \<Rightarrow> False)
      | _ \<Rightarrow> False)"

text \<open>A big-endian binary numeral, as \<^verbatim>\<open>int(s, 2)\<close> reads a string of \<^verbatim>\<open>0\<close> and \<^verbatim>\<open>1\<close>.\<close>

fun int_base2_acc :: "int \<Rightarrow> pystr \<Rightarrow> int option" where
  "int_base2_acc a [] = Some a"
| "int_base2_acc a (c # cs) =
     (if c = of_char CHR ''0'' then int_base2_acc (2 * a) cs
      else if c = of_char CHR ''1'' then int_base2_acc (2 * a + 1) cs
      else None)"

definition int_base2 :: "pystr \<Rightarrow> int option" where
  "int_base2 s = (if s = [] then None else int_base2_acc 0 s)"

text \<open>\<^verbatim>\<open>s.split(sep)\<close> for a separator of one character.\<close>

fun split_on :: "nat \<Rightarrow> pystr \<Rightarrow> pystr list" where
  "split_on sep [] = [[]]"
| "split_on sep (c # cs) =
     (if c = sep then [] # split_on sep cs
      else (case split_on sep cs of [] \<Rightarrow> [[c]] | l # ls \<Rightarrow> (c # l) # ls))"

text \<open>The lines of a text: the pieces between newlines, without an empty piece at the end.\<close>

definition file_lines :: "pystr \<Rightarrow> pystr list" where
  "file_lines text =
     (let ls = split_on 10 text in if last ls = [] then butlast ls else ls)"

text \<open>
  A frame is its four fields.  A line is read as a frame by cutting it at the underscores:
  two one-bit flags and two binary numerals.
\<close>

record frame =
  frame_size_valid :: bool
  frame_size :: int
  frame_data_valid :: bool
  frame_data :: nat

definition parse_flag :: "pystr \<Rightarrow> bool option" where
  "parse_flag s = (if s = str ''1'' then Some True else if s = str ''0'' then Some False else None)"

definition parse_frame :: "pystr \<Rightarrow> frame option" where
  "parse_frame line =
     (case split_on (of_char CHR ''_'') line of
        [a, b, c, d] \<Rightarrow>
          (case (parse_flag a, int_base2 b, parse_flag c, int_base2 d) of
             (Some sv, Some n, Some dv, Some k) \<Rightarrow>
               Some \<lparr>frame_size_valid = sv, frame_size = n, frame_data_valid = dv,
                      frame_data = nat k\<rparr>
           | _ \<Rightarrow> None)
      | _ \<Rightarrow> None)"

definition is_comment :: "pystr \<Rightarrow> bool" where
  "is_comment line = (take 1 line = str ''#'')"

text \<open>A data file: its first line, and the frames of all the lines after it.\<close>

definition read_datafile :: "pystr \<Rightarrow> (pystr \<times> frame list) option" where
  "read_datafile text =
     (case file_lines text of
        [] \<Rightarrow> None
      | first # rest \<Rightarrow>
          (case those (map parse_frame rest) of
             None \<Rightarrow> None
           | Some frames \<Rightarrow> Some (first, frames)))"

text \<open>The character of a flag: \<^verbatim>\<open>1\<close> or \<^verbatim>\<open>0\<close>.\<close>

definition flag :: "bool \<Rightarrow> nat" where
  "flag b = (if b then 49 else 48)"

text \<open>
  What a run of \<^verbatim>\<open>generate_datafile\<close> leaves in the file it was given: how the run
  ended and the text of the file, or its lines.  A run that does not return leaves nothing
  to read.
\<close>

definition written ::
  "pystr \<Rightarrow> (completion \<times> rand_state \<times> world) option \<Rightarrow> (completion \<times> pystr) option" where
  "written filename run =
     (case run of
        None \<Rightarrow> None
      | Some (r, g, w) \<Rightarrow>
          (case files w filename of None \<Rightarrow> None | Some text \<Rightarrow> Some (r, text)))"

definition written_lines ::
  "pystr \<Rightarrow> (completion \<times> rand_state \<times> world) option \<Rightarrow> (completion \<times> pystr list) option" where
  "written_lines filename run =
     (case written filename run of
        None \<Rightarrow> None
      | Some (r, text) \<Rightarrow> Some (r, file_lines text))"

text \<open>The line of a frame: what \<^verbatim>\<open>generate_string\<close> makes of its four fields.\<close>

definition frame_line :: "frame \<Rightarrow> pystr" where
  "frame_line fr =
     frame_text (frame_size_valid fr) (frame_size fr) (frame_data_valid fr) (frame_data fr)"

text \<open>The text of a list of lines, each ended by a newline.\<close>

definition text_of_lines :: "pystr list \<Rightarrow> pystr" where
  "text_of_lines ls = concat (map (\<lambda>l. l @ nl) ls)"

text \<open>
  The sizes \<^verbatim>\<open>randint(0, 2**32)\<close> can still return, and what a frame written by a run on
  the data may hold: a size that was drawn or the length of the data, and a character of the
  data, NUL or a noise character up to \<^verbatim>\<open>z\<close>.
\<close>

definition sizes_left :: "rand_state \<Rightarrow> int set" where
  "sizes_left g = sset (randint_draws g (0, 2 ^ 32))"

definition frame_of_run :: "rand_state \<Rightarrow> pystr \<Rightarrow> frame \<Rightarrow> bool" where
  "frame_of_run g data fr \<longleftrightarrow>
     (frame_size fr \<in> sizes_left g \<or> frame_size fr = int (length data)) \<and>
     (frame_data fr \<in> set data \<or> frame_data fr \<le> 122)"

section \<open>Example inputs\<close>

text \<open>
  A generator whose calls of \<^verbatim>\<open>random()\<close> return the values \<open>xs\<close> and then \<open>x\<close> for
  ever, and whose calls of \<^verbatim>\<open>randint(a, b)\<close> return \<open>n\<close>, or the end of the range nearest
  to it.  An empty file system with nothing printed yet.
\<close>

definition example_rand :: "real list \<Rightarrow> real \<Rightarrow> int \<Rightarrow> rand_state" where
  "example_rand xs x n =
     \<lparr>random_draws = xs @- sconst x,
      randint_draws = (\<lambda>(a, b). sconst (max a (min b n)))\<rparr>"

definition empty_world :: world where
  "empty_world = \<lparr>files = Map.empty, stdout = []\<rparr>"

section \<open>Digits and fields\<close>

lemma str_chars:
  "str ''0'' = [48]" "str ''1'' = [49]" "str ''_'' = [95]" "str ''#'' = [35]"
  "str ''0b'' = [48, 98]" "str ''-0b'' = [45, 48, 98]" "str ''# '' = [35, 32]"
  by (simp_all add: str_def)

lemma bin_digits_small: "n < 2 \<Longrightarrow> bin_digits n = (if n = 0 then [48] else [49])"
  by (subst bin_digits.simps) (simp add: str_chars)

lemma bin_digits_large:
  "\<not> n < 2 \<Longrightarrow> bin_digits n = bin_digits (n div 2) @ (if n mod 2 = 0 then [48] else [49])"
  by (subst bin_digits.simps) (simp add: str_chars)

lemma bin_digits_bits: "list_all is_bit (bin_digits n)"
proof (induction n rule: bin_digits.induct)
  case (1 n)
  show ?case
  proof (cases "n < 2")
    case True
    then show ?thesis by (simp add: bin_digits_small is_bit_def)
  next
    case False
    then show ?thesis using "1.IH" by (simp add: bin_digits_large is_bit_def)
  qed
qed

lemma bin_digits_nonempty: "bin_digits n \<noteq> []"
  by (cases "n < 2") (simp_all add: bin_digits_small bin_digits_large)

lemma length_bin_digits_le: "0 < k \<Longrightarrow> n < 2 ^ k \<Longrightarrow> length (bin_digits n) \<le> k"
proof (induction n arbitrary: k rule: bin_digits.induct)
  case (1 n)
  show ?case
  proof (cases "n < 2")
    case True
    then show ?thesis using "1.prems" by (simp add: bin_digits_small)
  next
    case False
    obtain j where k: "k = Suc j" using "1.prems" by (cases k) auto
    have j: "0 < j"
    proof (rule ccontr)
      assume "\<not> 0 < j"
      then have "k = 1" using k by simp
      then show False using "1.prems" False by simp
    qed
    have "n div 2 < 2 ^ j" using "1.prems" k by simp
    then have "length (bin_digits (n div 2)) \<le> j" using "1.IH" False j by simp
    then show ?thesis using False k by (simp add: bin_digits_large)
  qed
qed

lemma length_bin_digits_gt: "2 ^ k \<le> n \<Longrightarrow> k < length (bin_digits n)"
proof (induction n arbitrary: k rule: bin_digits.induct)
  case (1 n)
  show ?case
  proof (cases k)
    case 0
    then show ?thesis using bin_digits_nonempty [of n] by simp
  next
    case (Suc j)
    have "(2::nat) \<le> 2 ^ k" using Suc by simp
    then have n2: "\<not> n < 2" using "1.prems" by linarith
    have "2 ^ j \<le> n div 2" using "1.prems" Suc by simp
    then have "j < length (bin_digits (n div 2))" using "1.IH" n2 by simp
    then show ?thesis using n2 Suc by (simp add: bin_digits_large)
  qed
qed

lemma int_base2_acc_append:
  "int_base2_acc a (xs @ ys) =
     (case int_base2_acc a xs of None \<Rightarrow> None | Some b \<Rightarrow> int_base2_acc b ys)"
  by (induction xs arbitrary: a) auto

lemma int_base2_acc_bin_digits:
  "int_base2_acc a (bin_digits n) = Some (a * 2 ^ length (bin_digits n) + int n)"
proof (induction n arbitrary: a rule: bin_digits.induct)
  case (1 n)
  show ?case
  proof (cases "n < 2")
    case True
    then have "n = 0 \<or> n = 1" by auto
    then show ?thesis by (auto simp: bin_digits_small)
  next
    case False
    have n: "int n = 2 * int (n div 2) + int (n mod 2)"
      by (metis mult_div_mod_eq of_nat_add of_nat_mult of_nat_numeral)
    have m: "n mod 2 = 0 \<or> n mod 2 = 1" by auto
    have ih: "int_base2_acc a (bin_digits (n div 2)) =
        Some (a * 2 ^ length (bin_digits (n div 2)) + int (n div 2))"
      using "1.IH" [OF False] .
    show ?thesis using m
    proof
      assume z: "n mod 2 = 0"
      then have "int n = 2 * int (n div 2)" using n by simp
      then show ?thesis using False z ih
        by (simp add: bin_digits_large int_base2_acc_append algebra_simps)
    next
      assume z: "n mod 2 = 1"
      then have "int n = 2 * int (n div 2) + 1" using n by simp
      then show ?thesis using False z ih
        by (simp add: bin_digits_large int_base2_acc_append algebra_simps)
    qed
  qed
qed

lemma int_base2_acc_zeros: "int_base2_acc 0 (replicate k 48 @ s) = int_base2_acc 0 s"
  by (induction k) auto

lemma int_base2_padded: "int_base2 (format_zero_right w (bin_digits n)) = Some (int n)"
  using bin_digits_nonempty [of n]
  by (simp add: int_base2_def format_zero_right_def int_base2_acc_zeros
      int_base2_acc_bin_digits)

lemma length_format_zero_right: "length (format_zero_right w s) = max w (length s)"
  by (simp add: format_zero_right_def)

lemma format_zero_right_bits: "list_all is_bit s \<Longrightarrow> list_all is_bit (format_zero_right w s)"
  by (auto simp: format_zero_right_def is_bit_def list_all_iff)

lemma bin_nonneg: "0 \<le> n \<Longrightarrow> drop 2 (bin n) = bin_digits (nat n)"
  by (simp add: bin_def str_chars)

lemma bin_neg: "n < 0 \<Longrightarrow> drop 2 (bin n) = 98 # bin_digits (nat (- n))"
  by (simp add: bin_def str_chars)

lemma frame_text_nonneg:
  "0 \<le> n \<Longrightarrow> frame_text sv n dv c =
     flag sv # 95 # format_zero_right 32 (bin_digits (nat n)) @
     95 # flag dv # 95 # format_zero_right 8 (bin_digits c)"
  by (simp add: frame_text_def bin_nonneg str_chars flag_def)

lemma is_bit_flag: "is_bit (flag b)"
  by (simp add: is_bit_def flag_def)

lemma generate_string_single: "generate_string sv n dv [c] = Inr (frame_text sv n dv c)"
  by (simp add: generate_string_def frame_text_def ord_def Let_def)

lemma generate_string_nul: "generate_string sv n dv nul = Inr (frame_text sv n dv 0)"
  by (simp add: nul_def generate_string_single)

lemma frame_text_grammar:
  assumes "0 \<le> n" "n < 2 ^ 32" "c < 256"
  shows "frame_grammar (frame_text sv n dv c)"
proof -
  have "nat n < 2 ^ 32" using assms by (simp add: nat_less_iff)
  then have l32: "length (bin_digits (nat n)) \<le> 32"
    by (intro length_bin_digits_le) simp_all
  have "c < 2 ^ 8" using assms by simp
  then have l8: "length (bin_digits c) \<le> 8"
    by (intro length_bin_digits_le) simp_all
  have f32: "length (format_zero_right 32 (bin_digits (nat n))) = 32"
    using l32 by (simp add: length_format_zero_right)
  have f8: "length (format_zero_right 8 (bin_digits c)) = 8"
    using l8 by (simp add: length_format_zero_right)
  show ?thesis
    using f32 f8 assms(1)
    by (simp add: frame_text_nonneg frame_grammar_def str_chars is_bit_flag
        format_zero_right_bits bin_digits_bits)
qed

lemma frame_grammar_length:
  assumes "frame_grammar s"
  shows "length s = 45"
proof -
  obtain a u r where s: "s = a # u # r"
    using assms by (auto simp: frame_grammar_def split: list.splits)
  obtain u2 b u3 d where d: "drop 32 r = u2 # b # u3 # d" and l: "length d = 8"
    using assms s by (auto simp: frame_grammar_def split: list.splits)
  have "length (drop 32 r) = 11" using d l by simp
  then have "length r = 43" by simp
  then show ?thesis using s by simp
qed

lemma length_frame_text:
  "0 \<le> n \<Longrightarrow> length (frame_text sv n dv c) =
     5 + max 32 (length (bin_digits (nat n))) + max 8 (length (bin_digits c))"
  by (simp add: frame_text_nonneg length_format_zero_right)

section \<open>Fields of a frame\<close>

lemma frame_text_split:
  "frame_text sv n dv c =
     flag sv # 95 # format_zero_right 32 (drop 2 (bin n)) @
     95 # flag dv # 95 # format_zero_right 8 (bin_digits c)"
  by (simp add: frame_text_def bin_nonneg str_chars flag_def)

lemma size_field_of_frame_text:
  "0 \<le> n \<Longrightarrow> n < 2 ^ 32 \<Longrightarrow>
     take 32 (drop 2 (frame_text sv n dv c)) = format_zero_right 32 (bin_digits (nat n))"
proof -
  assume a: "0 \<le> n" "n < 2 ^ 32"
  then have "nat n < 2 ^ 32" by (simp add: nat_less_iff)
  then have "length (bin_digits (nat n)) \<le> 32"
    by (intro length_bin_digits_le) simp_all
  then have "length (format_zero_right 32 (bin_digits (nat n))) = 32"
    by (simp add: length_format_zero_right)
  then show ?thesis using a by (simp add: frame_text_nonneg)
qed

lemma data_field_of_frame_text:
  "drop (length (frame_text sv n dv c) - length (format_zero_right 8 (bin_digits c)))
     (frame_text sv n dv c) = format_zero_right 8 (bin_digits c)"
proof -
  have "frame_text sv n dv c =
      (flag sv # 95 # format_zero_right 32 (drop 2 (bin n)) @ [95, flag dv, 95]) @
      format_zero_right 8 (bin_digits c)"
    by (simp add: frame_text_split)
  then obtain pre where "frame_text sv n dv c = pre @ format_zero_right 8 (bin_digits c)"
    by blast
  then show ?thesis by simp
qed

section \<open>Claims about \<^verbatim>\<open>generate_string\<close>\<close>

text \<open>
  C3, as amended.  For every \<open>size_valid\<close> and \<open>data_valid\<close>, every size with
  \<open>0 \<le> size < 2^32\<close> and every single ASCII character (code point below 128),
  \<^verbatim>\<open>generate_string\<close> returns a string of exactly 45 characters (42 bits and three
  underscores) that matches the grammar; its size field is the binary numeral of the size
  padded with zeros on the left to 32 characters and its data field the numeral of the code
  point padded to 8, neither numeral being cut.
\<close>

theorem generate_string_wellformed:
  assumes "0 \<le> sz" and "sz < 2 ^ 32" and "c < 128"
  shows "\<exists>s. generate_string size_valid sz data_valid [c] = Inr s \<and>
           length s = 45 \<and> frame_grammar s \<and>
           take 32 (drop 2 s) =
             replicate (32 - length (bin_digits (nat sz))) (of_char CHR ''0'') @
             bin_digits (nat sz) \<and>
           length (bin_digits (nat sz)) \<le> 32 \<and>
           drop 37 s =
             replicate (8 - length (bin_digits c)) (of_char CHR ''0'') @ bin_digits c \<and>
           length (bin_digits c) \<le> 8"
proof -
  let ?s = "frame_text size_valid sz data_valid c"
  have c: "c < 256" using assms(3) by simp
  have g: "frame_grammar ?s" using assms(1,2) c by (rule frame_text_grammar)
  have "nat sz < 2 ^ 32" using assms by (simp add: nat_less_iff)
  then have l32: "length (bin_digits (nat sz)) \<le> 32"
    by (intro length_bin_digits_le) simp_all
  have "c < 2 ^ 8" using c by simp
  then have l8: "length (bin_digits c) \<le> 8"
    by (intro length_bin_digits_le) simp_all
  have f32: "length (format_zero_right 32 (bin_digits (nat sz))) = 32"
    using l32 by (simp add: length_format_zero_right)
  have t: "take 32 (drop 2 ?s) = format_zero_right 32 (bin_digits (nat sz))"
    using assms(1,2) by (rule size_field_of_frame_text)
  have d: "drop 37 ?s = format_zero_right 8 (bin_digits c)"
    using f32 assms(1) by (simp add: frame_text_nonneg)
  show ?thesis
    using g l32 l8 t d
    by (simp add: generate_string_single frame_grammar_length format_zero_right_def)
qed

text \<open>Witness for C3: size 2 and the character \<^verbatim>\<open>H\<close>.\<close>

theorem generate_string_wellformed_witness:
  "(0::int) \<le> 2 \<and> (2::int) < 2 ^ 32 \<and> (72::nat) < 128 \<and>
   (\<exists>s. generate_string True 2 False [72] = Inr s \<and>
        length s = 45 \<and> frame_grammar s \<and>
        take 32 (drop 2 s) =
          replicate (32 - length (bin_digits (nat 2))) (of_char CHR ''0'') @
          bin_digits (nat 2) \<and>
        length (bin_digits (nat 2)) \<le> 32 \<and>
        drop 37 s =
          replicate (8 - length (bin_digits 72)) (of_char CHR ''0'') @ bin_digits 72 \<and>
        length (bin_digits 72) \<le> 8)"
  using generate_string_wellformed [of 2 72 True False] by simp

text \<open>
  Counterexample to C3 as stated: the frame of size 2 with the character NUL has 45
  characters, not 44.
\<close>

theorem generate_string_length_44_counterexample:
  "generate_string True 2 False [0] =
     Inr (str ''1_00000000000000000000000000000010_0_00000000'') \<and>
   length (str ''1_00000000000000000000000000000010_0_00000000'') = 45 \<and>
   length (str ''1_00000000000000000000000000000010_0_00000000'') \<noteq> 44"
  by code_simp

text \<open>
  C5.  For every size with \<open>0 \<le> size < 2^32\<close>, whatever the flags and the character,
  the characters 3 to 34 of the output of \<^verbatim>\<open>generate_string\<close>, read as a big-endian
  binary numeral, give back the size.
\<close>

theorem size_field_roundtrip:
  assumes "0 \<le> sz" and "sz < 2 ^ 32"
  shows "\<exists>s. generate_string size_valid sz data_valid [c] = Inr s \<and>
           int_base2 (take 32 (drop 2 s)) = Some sz"
  using assms
  by (simp add: generate_string_single size_field_of_frame_text int_base2_padded)

text \<open>Witness for C5: the largest size of the range.\<close>

theorem size_field_roundtrip_witness:
  "(0::int) \<le> 4294967295 \<and> (4294967295::int) < 2 ^ 32 \<and>
   (\<exists>s. generate_string False 4294967295 True [65] = Inr s \<and>
        int_base2 (take 32 (drop 2 s)) = Some 4294967295)"
  using size_field_roundtrip [of 4294967295 False True 65] by simp

text \<open>
  C6.  For every single ASCII character, whatever the flags and the size, the last 8
  characters of the output of \<^verbatim>\<open>generate_string\<close>, read as a big-endian binary numeral,
  give the code point of the character.
\<close>

theorem data_field_roundtrip:
  assumes "c < 128"
  shows "\<exists>s. generate_string size_valid sz data_valid [c] = Inr s \<and>
           int_base2 (drop (length s - 8) s) = Some (int c)"
proof -
  have "c < 2 ^ 8" using assms by simp
  then have "length (bin_digits c) \<le> 8"
    by (intro length_bin_digits_le) simp_all
  then have "length (format_zero_right 8 (bin_digits c)) = 8"
    by (simp add: length_format_zero_right)
  then have "drop (length (frame_text size_valid sz data_valid c) - 8)
      (frame_text size_valid sz data_valid c) = format_zero_right 8 (bin_digits c)"
    using data_field_of_frame_text [of size_valid sz data_valid c] by simp
  then show ?thesis
    by (simp add: generate_string_single int_base2_padded)
qed

text \<open>Witness for C6: the character \<^verbatim>\<open>i\<close>.\<close>

theorem data_field_roundtrip_witness:
  "(105::nat) < 128 \<and>
   (\<exists>s. generate_string False 7 True [105] = Inr s \<and>
        int_base2 (drop (length s - 8) s) = Some (int 105))"
  using data_field_roundtrip [of 105 False 7 True] by simp

text \<open>
  C10.  For a character whose code point is at least 256, \<^verbatim>\<open>generate_string\<close> raises
  nothing and returns a string whose data field, the binary numeral of the code point, has
  more than 8 characters; the string is longer than 44 characters (longer than the 45 of a
  well-formed frame, too) and does not match the grammar.
\<close>

theorem wide_character_overflows:
  assumes "256 \<le> c"
  shows "\<exists>s. generate_string size_valid sz data_valid [c] = Inr s \<and>
           8 < length (bin_digits c) \<and>
           drop (length s - length (bin_digits c)) s = bin_digits c \<and>
           44 < length s \<and> 45 < length s \<and> \<not> frame_grammar s"
proof -
  let ?s = "frame_text size_valid sz data_valid c"
  have "2 ^ 8 \<le> c" using assms by simp
  then have l: "8 < length (bin_digits c)" by (rule length_bin_digits_gt)
  then have f: "format_zero_right 8 (bin_digits c) = bin_digits c"
    by (simp add: format_zero_right_def)
  have d: "drop (length ?s - length (bin_digits c)) ?s = bin_digits c"
    using data_field_of_frame_text [of size_valid sz data_valid c] f by simp
  have "32 \<le> length (format_zero_right 32 (drop 2 (bin sz)))"
    by (simp add: length_format_zero_right)
  then have len: "45 < length ?s" using l f by (simp add: frame_text_split)
  then have "\<not> frame_grammar ?s" using frame_grammar_length [of ?s] by auto
  then show ?thesis using l d len by (simp add: generate_string_single)
qed

text \<open>Witness for C10: the code point 256.\<close>

theorem wide_character_overflows_witness:
  "(256::nat) \<le> 256 \<and>
   (\<exists>s. generate_string False 0 True [256] = Inr s \<and>
        8 < length (bin_digits 256) \<and>
        drop (length s - length (bin_digits 256)) s = bin_digits 256 \<and>
        44 < length s \<and> 45 < length s \<and> \<not> frame_grammar s)"
  using wide_character_overflows [of 256 False 0 True] by simp

section \<open>Draws\<close>

lemma uniform_0_1:
  "uniform 0 1 g = (shd (random_draws g), g\<lparr>random_draws := stl (random_draws g)\<rparr>)"
  by (simp add: uniform_def)

lemma rand_contract_random:
  "rand_contract g \<Longrightarrow> x \<in> sset (random_draws g) \<Longrightarrow> 0 \<le> x \<and> x < 1"
  unfolding rand_contract_def by blast

lemma rand_contract_randint:
  "rand_contract g \<Longrightarrow> a \<le> b \<Longrightarrow> n \<in> sset (randint_draws g (a, b)) \<Longrightarrow> a \<le> n \<and> n \<le> b"
  unfolding rand_contract_def by blast

lemma rand_contractI:
  assumes "\<And>x. x \<in> sset (random_draws g) \<Longrightarrow> 0 \<le> x \<and> x < 1"
    and "\<And>a b n. a \<le> b \<Longrightarrow> n \<in> sset (randint_draws g (a, b)) \<Longrightarrow> a \<le> n \<and> n \<le> b"
  shows "rand_contract g"
  unfolding rand_contract_def using assms by blast

lemma uniform_range:
  assumes "rand_contract g"
  shows "0 \<le> fst (uniform 0 1 g) \<and> fst (uniform 0 1 g) < 1"
proof -
  have "shd (random_draws g) \<in> sset (random_draws g)" by (rule shd_sset)
  then have "0 \<le> shd (random_draws g) \<and> shd (random_draws g) < 1"
    using assms by (rule rand_contract_random [rotated])
  then show ?thesis by (simp add: uniform_0_1)
qed

lemma uniform_contract:
  assumes "rand_contract g"
  shows "rand_contract (snd (uniform a b g))"
proof (rule rand_contractI)
  fix x assume "x \<in> sset (random_draws (snd (uniform a b g)))"
  then have "x \<in> sset (stl (random_draws g))" by (simp add: uniform_def)
  then have "x \<in> sset (random_draws g)" by (rule stl_sset)
  then show "0 \<le> x \<and> x < 1" using assms by (rule rand_contract_random [rotated])
next
  fix a' b' :: int and n
  assume "a' \<le> b'" and "n \<in> sset (randint_draws (snd (uniform a b g)) (a', b'))"
  then have "a' \<le> b'" and "n \<in> sset (randint_draws g (a', b'))" by (simp_all add: uniform_def)
  then show "a' \<le> n \<and> n \<le> b'" using assms by (rule rand_contract_randint [rotated])
qed

lemma randint_range:
  assumes "rand_contract g" and "a \<le> b"
  shows "a \<le> fst (randint a b g) \<and> fst (randint a b g) \<le> b"
proof -
  have "shd (randint_draws g (a, b)) \<in> sset (randint_draws g (a, b))" by (rule shd_sset)
  then have "a \<le> shd (randint_draws g (a, b)) \<and> shd (randint_draws g (a, b)) \<le> b"
    using assms rand_contract_randint by blast
  then show ?thesis by (simp add: randint_def)
qed

lemma randint_draws_subset:
  "sset (randint_draws (snd (randint a b g)) k) \<subseteq> sset (randint_draws g k)"
proof (cases "k = (a, b)")
  case True
  then show ?thesis by (auto simp: randint_def dest: stl_sset)
next
  case False
  then show ?thesis by (simp add: randint_def)
qed

lemma randint_contract:
  assumes "rand_contract g"
  shows "rand_contract (snd (randint a b g))"
proof (rule rand_contractI)
  fix x assume "x \<in> sset (random_draws (snd (randint a b g)))"
  then have "x \<in> sset (random_draws g)" by (simp add: randint_def)
  then show "0 \<le> x \<and> x < 1" using assms by (rule rand_contract_random [rotated])
next
  fix a' b' :: int and n
  assume le: "a' \<le> b'" and "n \<in> sset (randint_draws (snd (randint a b g)) (a', b'))"
  then have "n \<in> sset (randint_draws g (a', b'))" using randint_draws_subset by blast
  then show "a' \<le> n \<and> n \<le> b'" using assms le rand_contract_randint by blast
qed

lemma example_rand_contract:
  "0 \<le> x \<Longrightarrow> x < 1 \<Longrightarrow> \<forall>y \<in> set xs. 0 \<le> y \<and> y < 1 \<Longrightarrow>
     rand_contract (example_rand xs x n)"
  by (auto simp: rand_contract_def example_rand_def)

section \<open>One iteration of each loop\<close>

lemma chr_in_range: "0 \<le> k \<Longrightarrow> k < 1114112 \<Longrightarrow> chr k = Inr [nat k]"
  by (simp add: chr_def)

lemma preamble_loop_success:
  "fst (uniform 0 1 g) < ch \<Longrightarrow>
   preamble_loop data ch g f =
     Some (Normal, snd (uniform 0 1 g), f @ frame_text True (int (length data)) False 0 @ nl)"
  by (subst preamble_loop.simps) (simp add: generate_string_nul case_prod_beta)

lemma preamble_loop_retry:
  "\<not> fst (uniform 0 1 g) < ch \<Longrightarrow>
   preamble_loop data ch g f =
     preamble_loop data ch (snd (randint 0 (2 ^ 32) (snd (uniform 0 1 g))))
       (f @ frame_text False (fst (randint 0 (2 ^ 32) (snd (uniform 0 1 g)))) False 0 @ nl)"
  by (subst preamble_loop.simps) (simp add: generate_string_nul case_prod_beta)

lemma char_loop_success:
  "fst (uniform 0 1 g) < ch \<Longrightarrow>
   char_loop c ch g f =
     Some (Normal, snd (randint 0 (2 ^ 32) (snd (uniform 0 1 g))),
       f @ frame_text False (fst (randint 0 (2 ^ 32) (snd (uniform 0 1 g)))) True c @ nl)"
  by (subst char_loop.simps) (simp add: generate_string_single case_prod_beta)

lemma char_loop_retry:
  assumes "\<not> fst (uniform 0 1 g) < ch"
    and "g2 = snd (randint 0 (2 ^ 32) (snd (uniform 0 1 g)))"
    and "n = fst (randint 0 (2 ^ 32) (snd (uniform 0 1 g)))"
    and "k = fst (randint 65 122 g2)"
    and "0 \<le> k" and "k < 1114112"
  shows "char_loop c ch g f =
     char_loop c ch (snd (randint 65 122 g2)) (f @ frame_text False n False (nat k) @ nl)"
  using assms
  by (subst char_loop.simps) (simp add: generate_string_single chr_in_range case_prod_beta)

section \<open>The script without an argument\<close>

text \<open>
  C9.  When \<^verbatim>\<open>sys.argv\<close> has no element at index 1, the script ends with an uncaught
  \<^verbatim>\<open>IndexError\<close>, and the files and standard output are as they were before: nothing was
  written, printed, caught or retried.
\<close>

theorem main_without_argument:
  assumes "length argv \<le> 1"
  shows "main ascii lower argv g w = Some (Raised IndexError, g, w)"
  using assms by (simp add: main_def)

text \<open>Witness for C9: the argument list holds the name of the script only.\<close>

theorem main_without_argument_witness:
  "length [str ''data_generation.py''] \<le> 1 \<and>
   main id id [str ''data_generation.py''] (example_rand [] 0 0) empty_world =
     Some (Raised IndexError, example_rand [] 0 0, empty_world)"
  using main_without_argument [of "[str ''data_generation.py'']" id id "example_rand [] 0 0" empty_world]
  by simp

section \<open>A chance of zero\<close>

lemma preamble_loop_chance_0:
  assumes "preamble_loop data ch g f = Some y"
  shows "ch \<le> 0 \<longrightarrow> rand_contract g \<longrightarrow> False"
proof (rule preamble_loop.raw_induct
    [where P = "\<lambda>data ch g f y. ch \<le> 0 \<longrightarrow> rand_contract g \<longrightarrow> False", OF _ assms],
    goal_cases)
  case (1 loop data ch g f y)
  let ?g1 = "snd (uniform 0 1 g)"
  let ?g2 = "snd (randint 0 (2 ^ 32) ?g1)"
  let ?f2 = "f @ frame_text False (fst (randint 0 (2 ^ 32) ?g1)) False 0 @ nl"
  show ?case
  proof (intro impI)
    assume ch: "ch \<le> 0" and g: "rand_contract g"
    have "\<not> fst (uniform 0 1 g) < ch" using uniform_range [OF g] ch by simp
    then have "loop data ch ?g2 ?f2 = Some y"
      using "1"(2) by (simp add: generate_string_nul case_prod_beta)
    moreover have "rand_contract ?g2"
      using g by (intro randint_contract uniform_contract)
    ultimately show False using "1"(1) ch by blast
  qed
qed

text \<open>
  C7.  With \<^verbatim>\<open>random_value_chance = 0\<close> and draws of \<^verbatim>\<open>random()\<close> in \<open>[0, 1)\<close>, the first
  sampling loop never returns, from any text written so far, and so \<^verbatim>\<open>generate_datafile\<close>
  never returns: no draw is below 0, so every iteration takes the branch that writes a noise
  frame and goes round again.
\<close>

theorem chance_zero_never_terminates:
  assumes "rand_contract g"
  shows "preamble_loop data 0 g datafile = None \<and>
         generate_datafile filename data 0 g w = None"
proof -
  have "preamble_loop data 0 g f = None" for f
    using preamble_loop_chance_0 [of data 0 g f] assms by (cases "preamble_loop data 0 g f") auto
  then show ?thesis by (simp add: generate_datafile_def Let_def)
qed

text \<open>Witness for C7: every draw is one half.\<close>

theorem chance_zero_never_terminates_witness:
  "rand_contract (example_rand [] (1 / 2) 7) \<and>
   preamble_loop (str ''Hi'') 0 (example_rand [] (1 / 2) 7) (str ''# Hi'' @ nl) = None \<and>
   generate_datafile (str ''hi'') (str ''Hi'') 0 (example_rand [] (1 / 2) 7) empty_world = None"
  using chance_zero_never_terminates [of "example_rand [] (1 / 2) 7" "str ''Hi''" "str ''# Hi'' @ nl" "str ''hi''" empty_world]
  by (simp add: example_rand_contract)

section \<open>Lines of a text\<close>

lemma split_on_nonempty: "split_on sep s \<noteq> []"
  by (induction s) (auto split: list.splits)

lemma split_on_line:
  "sep \<notin> set l \<Longrightarrow> split_on sep (l @ sep # rest) = l # split_on sep rest"
  by (induction l) (auto split: list.splits)

lemma split_on_no_sep: "sep \<notin> set l \<Longrightarrow> split_on sep l = [l]"
  by (induction l) (auto split: list.splits)

lemma split_on_lines:
  "\<forall>l \<in> set ls. 10 \<notin> set l \<Longrightarrow>
     split_on 10 (concat (map (\<lambda>l. l @ nl) ls)) = ls @ [[]]"
  by (induction ls) (simp_all add: nl_def split_on_line)

lemma file_lines_lines:
  "\<forall>l \<in> set ls. 10 \<notin> set l \<Longrightarrow> file_lines (concat (map (\<lambda>l. l @ nl) ls)) = ls"
  by (simp add: file_lines_def split_on_lines)

lemma frame_text_no_newline: "0 \<le> n \<Longrightarrow> 10 \<notin> set (frame_text sv n dv c)"
proof -
  assume n: "0 \<le> n"
  have b: "list_all is_bit s \<Longrightarrow> 10 \<notin> set s" for s
    by (auto simp: list_all_iff is_bit_def)
  have "10 \<notin> set (format_zero_right 32 (bin_digits (nat n)))"
    and "10 \<notin> set (format_zero_right 8 (bin_digits c))"
    by (intro b format_zero_right_bits bin_digits_bits)+
  then show ?thesis using n by (simp add: frame_text_nonneg flag_def)
qed

section \<open>A chance of one\<close>

lemma randint_after_uniform:
  "fst (randint a b (snd (uniform x y g))) = shd (randint_draws g (a, b))"
  "randint_draws (snd (randint a b (snd (uniform x y g)))) (a, b) = stl (randint_draws g (a, b))"
  by (simp_all add: randint_def uniform_def)

lemma for_loop_chance_1:
  assumes "rand_contract g"
  shows "\<exists>g'. for_loop data 1 g f =
           Some (Normal, g',
             f @ concat (map (\<lambda>(c, n). frame_text False n True c @ nl)
                  (zip data (stake (length data) (randint_draws g (0, 2 ^ 32))))))"
  using assms
proof (induction data arbitrary: g f)
  case Nil
  then show ?case by simp
next
  case (Cons c cs)
  let ?g2 = "snd (randint 0 (2 ^ 32) (snd (uniform 0 1 g)))"
  let ?n = "shd (randint_draws g (0, 2 ^ 32))"
  have lt: "fst (uniform 0 1 g) < 1" using uniform_range [OF Cons.prems] by simp
  have step: "char_loop c 1 g f = Some (Normal, ?g2, f @ frame_text False ?n True c @ nl)"
    using char_loop_success [OF lt, of c f] randint_after_uniform(1) [of 0 "2 ^ 32" 0 1 g]
    by simp
  have "rand_contract ?g2" using Cons.prems by (intro randint_contract uniform_contract)
  from Cons.IH [OF this, of "f @ frame_text False ?n True c @ nl"]
  obtain g' where "for_loop cs 1 ?g2 (f @ frame_text False ?n True c @ nl) =
      Some (Normal, g',
        (f @ frame_text False ?n True c @ nl) @
        concat (map (\<lambda>(c, n). frame_text False n True c @ nl)
          (zip cs (stake (length cs) (randint_draws ?g2 (0, 2 ^ 32))))))"
    by blast
  moreover have "randint_draws ?g2 (0, 2 ^ 32) = stl (randint_draws g (0, 2 ^ 32))"
    using randint_after_uniform(2) [of 0 "2 ^ 32" 0 1 g] by simp
  ultimately show ?case using step by simp
qed

lemma chance_one_run:
  assumes "rand_contract g"
  shows "written filename (generate_datafile filename data 1 g w) =
           Some (Normal,
             str ''# '' @ data @ nl @
             frame_text True (int (length data)) False 0 @ nl @
             concat (map (\<lambda>(c, n). frame_text False n True c @ nl)
               (zip data (stake (length data) (randint_draws g (0, 2 ^ 32))))))"
proof -
  let ?g1 = "snd (uniform 0 1 g)"
  let ?f1 = "(str ''# '' @ data @ nl) @ frame_text True (int (length data)) False 0 @ nl"
  have lt: "fst (uniform 0 1 g) < 1" using uniform_range [OF assms] by simp
  have pre: "preamble_loop data 1 g (str ''# '' @ data @ nl) = Some (Normal, ?g1, ?f1)"
    using preamble_loop_success [OF lt] by simp
  have "rand_contract ?g1" using assms by (rule uniform_contract)
  from for_loop_chance_1 [OF this, of data ?f1]
  obtain g' where "for_loop data 1 ?g1 ?f1 =
      Some (Normal, g', ?f1 @ concat (map (\<lambda>(c, n). frame_text False n True c @ nl)
        (zip data (stake (length data) (randint_draws ?g1 (0, 2 ^ 32))))))"
    by blast
  moreover have "randint_draws ?g1 = randint_draws g" by (simp add: uniform_def)
  ultimately show ?thesis using pre by (simp add: generate_datafile_def written_def Let_def)
qed

text \<open>
  C8.  With \<^verbatim>\<open>random_value_chance = 1.0\<close> and draws of \<^verbatim>\<open>random()\<close> in \<open>[0, 1)\<close>, the run
  completes and the file holds the comment line, the frame with \<^verbatim>\<open>size_valid\<close> set and one
  frame with \<^verbatim>\<open>data_valid\<close> set for each character of the data, in order, and nothing else:
  each loop succeeds on its first trial and no noise frame is written.  The size of the
  \<open>i\<close>-th data frame is the \<open>i\<close>-th result of \<^verbatim>\<open>randint(0, 2**32)\<close>.
\<close>

theorem chance_one_no_noise:
  assumes "rand_contract g"
  shows "written filename (generate_datafile filename data 1 g w) =
           Some (Normal,
             str ''# '' @ data @ nl @
             frame_text True (int (length data)) False 0 @ nl @
             concat (map (\<lambda>(c, n). frame_text False n True c @ nl)
               (zip data (stake (length data) (randint_draws g (0, 2 ^ 32))))))"
  using assms by (rule chance_one_run)

text \<open>Witness for C8: the data \<^verbatim>\<open>Hi\<close>, every draw of \<^verbatim>\<open>random()\<close> one half.\<close>

theorem chance_one_no_noise_witness:
  "rand_contract (example_rand [] (1 / 2) 5) \<and>
   written (str ''hi'') (generate_datafile (str ''hi'') (str ''Hi'') 1
       (example_rand [] (1 / 2) 5) empty_world) =
     Some (Normal,
       str ''# '' @ str ''Hi'' @ nl @
       frame_text True (int (length (str ''Hi''))) False 0 @ nl @
       concat (map (\<lambda>(c, n). frame_text False n True c @ nl)
         (zip (str ''Hi'')
            (stake (length (str ''Hi''))
               (randint_draws (example_rand [] (1 / 2) 5) (0, 2 ^ 32))))))"
  using chance_one_no_noise [of "example_rand [] (1 / 2) 5" "str ''hi''" "str ''Hi''" empty_world]
  by (simp add: example_rand_contract)

section \<open>The file for \<^verbatim>\<open>Hi\<close>\<close>

lemma hi_fields:
  "str ''Hi'' = [72, 105]"
  "frame_text True 2 False 0 = str ''1_00000000000000000000000000000010_0_00000000''"
  "format_zero_right 8 (bin_digits 72) = str ''01001000''"
  "format_zero_right 8 (bin_digits 105) = str ''01101001''"
  by code_simp+

lemma data_frame_text:
  "0 \<le> n \<Longrightarrow> frame_text False n True c =
     str ''0_'' @ format_zero_right 32 (bin_digits (nat n)) @ str ''_1_'' @
     format_zero_right 8 (bin_digits c)"
  by (simp add: frame_text_nonneg flag_def str_def)

lemma hi_lines:
  assumes g: "rand_contract g"
    and draws: "stake 2 (randint_draws g (0, 2 ^ 32)) = [r1, r2]"
  shows "written_lines filename (generate_datafile filename (str ''Hi'') 1 g w) =
           Some (Normal,
             [str ''# Hi'',
              str ''1_00000000000000000000000000000010_0_00000000'',
              str ''0_'' @ format_zero_right 32 (bin_digits (nat r1)) @ str ''_1_01001000'',
              str ''0_'' @ format_zero_right 32 (bin_digits (nat r2)) @ str ''_1_01101001''])"
proof -
  let ?s = "randint_draws g (0, 2 ^ 32)"
  have r: "r1 = shd ?s" "r2 = shd (stl ?s)"
    using draws by (simp_all add: numeral_2_eq_2)
  have "r1 \<in> sset ?s" "r2 \<in> sset ?s"
    unfolding r by (simp_all add: shd_sset stl_sset)
  then have nn: "0 \<le> r1" "0 \<le> r2"
    using rand_contract_randint [OF g, of 0 "2 ^ 32"] by simp_all
  let ?l3 = "frame_text False r1 True 72" and ?l4 = "frame_text False r2 True 105"
  let ?ls = "[str ''# Hi'', frame_text True 2 False 0, ?l3, ?l4]"
  have content: "written filename (generate_datafile filename (str ''Hi'') 1 g w) =
      Some (Normal, concat (map (\<lambda>l. l @ nl) ?ls))"
    using chance_one_run [OF g, of filename "str ''Hi''" w] r
    by (simp add: hi_fields(1) str_def)
  have "10 \<notin> set (str ''# Hi'')" by (simp add: str_def)
  then have "\<forall>l \<in> set ?ls. 10 \<notin> set l"
    using nn by (simp add: frame_text_no_newline)
  then have "file_lines (concat (map (\<lambda>l. l @ nl) ?ls)) = ?ls"
    by (rule file_lines_lines)
  then have "written_lines filename (generate_datafile filename (str ''Hi'') 1 g w) =
      Some (Normal, ?ls)"
    using content by (simp add: written_lines_def)
  moreover have "?l3 = str ''0_'' @ format_zero_right 32 (bin_digits (nat r1)) @ str ''_1_01001000''"
    using nn(1) by (simp add: data_frame_text hi_fields(3)) (simp add: str_def)
  moreover have "?l4 = str ''0_'' @ format_zero_right 32 (bin_digits (nat r2)) @ str ''_1_01101001''"
    using nn(2) by (simp add: data_frame_text hi_fields(4)) (simp add: str_def)
  ultimately show ?thesis by (simp add: hi_fields(2))
qed

lemma size_field_length:
  "0 \<le> n \<Longrightarrow> n < 2 ^ 32 \<Longrightarrow> length (format_zero_right 32 (bin_digits (nat n))) = 32"
proof -
  assume "0 \<le> n" "n < 2 ^ 32"
  then have "nat n < 2 ^ 32" by (simp add: nat_less_iff)
  then have "length (bin_digits (nat n)) \<le> 32"
    by (intro length_bin_digits_le) simp_all
  then show ?thesis by (simp add: length_format_zero_right)
qed

text \<open>
  C4, as amended.  With the data \<^verbatim>\<open>Hi\<close> and \<^verbatim>\<open>random_value_chance = 1.0\<close> the file has
  exactly four lines: \<^verbatim>\<open># Hi\<close>, the frame \<^verbatim>\<open>1_00000000000000000000000000000010_0_00000000\<close>,
  and two data frames \<^verbatim>\<open>0_S_1_01001000\<close> and \<^verbatim>\<open>0_T_1_01101001\<close>, where \<open>S\<close> and \<open>T\<close>
  are the 32-character binary numerals of the two sizes drawn by \<^verbatim>\<open>randint(0, 2**32)\<close>, for
  draws below \<open>2^32\<close>.  The lines are those of the claim when both draws are 0.
\<close>

theorem hi_datafile:
  assumes "rand_contract g"
    and "stake 2 (randint_draws g (0, 2 ^ 32)) = [r1, r2]"
    and "r1 < 2 ^ 32" and "r2 < 2 ^ 32"
  shows "written_lines filename (generate_datafile filename (str ''Hi'') 1 g w) =
           Some (Normal,
             [str ''# Hi'',
              str ''1_00000000000000000000000000000010_0_00000000'',
              str ''0_'' @ format_zero_right 32 (bin_digits (nat r1)) @ str ''_1_01001000'',
              str ''0_'' @ format_zero_right 32 (bin_digits (nat r2)) @ str ''_1_01101001'']) \<and>
         length (format_zero_right 32 (bin_digits (nat r1))) = 32 \<and>
         length (format_zero_right 32 (bin_digits (nat r2))) = 32"
proof -
  let ?s = "randint_draws g (0, 2 ^ 32)"
  have r: "r1 = shd ?s" "r2 = shd (stl ?s)"
    using assms(2) by (simp_all add: numeral_2_eq_2)
  have "r1 \<in> sset ?s" "r2 \<in> sset ?s"
    unfolding r by (simp_all add: shd_sset stl_sset)
  then have "0 \<le> r1" "0 \<le> r2"
    using rand_contract_randint [OF assms(1), of 0 "2 ^ 32"] by simp_all
  then show ?thesis
    using hi_lines [OF assms(1,2)] assms(3,4) by (simp add: size_field_length)
qed

lemma example_draws:
  "stake 2 (randint_draws (example_rand xs x 0) (0, 4294967296)) = [0, 0]"
  "stake 2 (randint_draws (example_rand xs x 5) (0, 4294967296)) = [5, 5]"
  by (simp_all add: example_rand_def numeral_2_eq_2)

lemma example_fields:
  "format_zero_right 32 (bin_digits 0) = str ''00000000000000000000000000000000''"
  "format_zero_right 32 (bin_digits 5) = str ''00000000000000000000000000000101''"
  by code_simp+

text \<open>Witness for C4: both sizes drawn are 0, and the lines are those of the claim.\<close>

theorem hi_datafile_witness:
  "rand_contract (example_rand [] (1 / 2) 0) \<and>
   stake 2 (randint_draws (example_rand [] (1 / 2) 0) (0, 2 ^ 32)) = [0, 0] \<and>
   (0::int) < 2 ^ 32 \<and> (0::int) < 2 ^ 32 \<and>
   written_lines (str ''out.txt'')
       (generate_datafile (str ''out.txt'') (str ''Hi'') 1 (example_rand [] (1 / 2) 0)
          empty_world) =
     Some (Normal,
       [str ''# Hi'',
        str ''1_00000000000000000000000000000010_0_00000000'',
        str ''0_00000000000000000000000000000000_1_01001000'',
        str ''0_00000000000000000000000000000000_1_01101001''])"
  using hi_datafile [of "example_rand [] (1 / 2) 0" 0 0 "str ''out.txt''" empty_world]
  by (simp add: example_rand_contract example_draws example_fields str_def)

text \<open>
  Counterexample to C4 as stated: when the sizes drawn are 5, the third and fourth lines carry
  \<^verbatim>\<open>101\<close> in their size field.
\<close>

theorem hi_datafile_counterexample:
  "rand_contract (example_rand [] (1 / 2) 5) \<and>
   written_lines (str ''out.txt'')
       (generate_datafile (str ''out.txt'') (str ''Hi'') 1 (example_rand [] (1 / 2) 5)
          empty_world) =
     Some (Normal,
       [str ''# Hi'',
        str ''1_00000000000000000000000000000010_0_00000000'',
        str ''0_00000000000000000000000000000101_1_01001000'',
        str ''0_00000000000000000000000000000101_1_01101001'']) \<and>
   str ''0_00000000000000000000000000000101_1_01001000'' \<noteq>
     str ''0_00000000000000000000000000000000_1_01001000''"
  using hi_lines [of "example_rand [] (1 / 2) 5" 5 5 "str ''out.txt''" empty_world]
  by (simp add: example_rand_contract example_draws example_fields str_def)

section \<open>Reading back the line of a frame\<close>

lemma bits_no_underscore: "list_all is_bit s \<Longrightarrow> 95 \<notin> set s"
  by (auto simp: list_all_iff is_bit_def)

lemma field_no_underscore: "95 \<notin> set (format_zero_right w (bin_digits n))"
  by (intro bits_no_underscore format_zero_right_bits bin_digits_bits)

lemma split_frame_text:
  assumes "0 \<le> n"
  shows "split_on 95 (frame_text sv n dv c) =
           [[flag sv], format_zero_right 32 (bin_digits (nat n)), [flag dv],
            format_zero_right 8 (bin_digits c)]"
proof -
  let ?a = "format_zero_right 32 (bin_digits (nat n))"
  let ?b = "format_zero_right 8 (bin_digits c)"
  have ft: "frame_text sv n dv c = [flag sv] @ 95 # (?a @ 95 # ([flag dv] @ 95 # ?b))"
    using assms by (simp add: frame_text_nonneg)
  have f: "95 \<notin> set [flag sv]" "95 \<notin> set [flag dv]"
    by (simp_all add: flag_def)
  have ab: "95 \<notin> set ?a" "95 \<notin> set ?b" by (rule field_no_underscore)+
  have "split_on 95 (frame_text sv n dv c) = [flag sv] # split_on 95 (?a @ 95 # ([flag dv] @ 95 # ?b))"
    unfolding ft using f(1) by (rule split_on_line)
  also have "split_on 95 (?a @ 95 # ([flag dv] @ 95 # ?b)) = ?a # split_on 95 ([flag dv] @ 95 # ?b)"
    using ab(1) by (rule split_on_line)
  also have "split_on 95 ([flag dv] @ 95 # ?b) = [flag dv] # split_on 95 ?b"
    using f(2) by (rule split_on_line)
  also have "split_on 95 ?b = [?b]"
    using ab(2) by (rule split_on_no_sep)
  finally show ?thesis .
qed

lemma parse_flag_flag: "parse_flag [flag b] = Some b"
  by (simp add: parse_flag_def flag_def str_chars)

lemma parse_frame_line:
  assumes "0 \<le> frame_size fr"
  shows "parse_frame (frame_line fr) = Some fr"
proof -
  have "int_base2 (format_zero_right 32 (bin_digits (nat (frame_size fr)))) = Some (frame_size fr)"
    using assms by (simp add: int_base2_padded)
  then show ?thesis
    using assms
    by (simp add: parse_frame_def frame_line_def split_frame_text parse_flag_flag
        int_base2_padded)
qed

lemma frame_line_not_comment: "\<not> is_comment (frame_line fr)"
  by (simp add: is_comment_def frame_line_def frame_text_split str_chars flag_def)

lemma frame_line_no_newline: "0 \<le> frame_size fr \<Longrightarrow> 10 \<notin> set (frame_line fr)"
  by (simp add: frame_line_def frame_text_no_newline)

lemma frame_line_grammar:
  "0 \<le> frame_size fr \<Longrightarrow> frame_size fr < 2 ^ 32 \<Longrightarrow> frame_data fr < 256 \<Longrightarrow>
     frame_grammar (frame_line fr)"
  by (simp add: frame_line_def frame_text_grammar)

lemma those_parse_frame_lines:
  "\<forall>fr \<in> set frs. 0 \<le> frame_size fr \<Longrightarrow>
     those (map (parse_frame \<circ> frame_line) frs) = Some frs"
  by (induction frs) (simp_all add: parse_frame_line)

lemma text_of_lines_Cons: "text_of_lines (l # ls) = l @ nl @ text_of_lines ls"
  by (simp add: text_of_lines_def)

lemma text_of_lines_append: "text_of_lines (xs @ ys) = text_of_lines xs @ text_of_lines ys"
  by (simp add: text_of_lines_def)

lemma file_lines_text_of_lines:
  "\<forall>l \<in> set ls. 10 \<notin> set l \<Longrightarrow> file_lines (text_of_lines ls) = ls"
  unfolding text_of_lines_def by (rule file_lines_lines)

lemma read_datafile_text:
  assumes "10 \<notin> set first" and "\<forall>fr \<in> set frs. 0 \<le> frame_size fr"
  shows "file_lines (text_of_lines (first # map frame_line frs)) = first # map frame_line frs"
    and "read_datafile (text_of_lines (first # map frame_line frs)) = Some (first, frs)"
proof -
  have "\<forall>l \<in> set (first # map frame_line frs). 10 \<notin> set l"
    using assms by (auto simp: frame_line_no_newline)
  then show l: "file_lines (text_of_lines (first # map frame_line frs)) = first # map frame_line frs"
    by (rule file_lines_text_of_lines)
  show "read_datafile (text_of_lines (first # map frame_line frs)) = Some (first, frs)"
    using assms(2) by (simp add: read_datafile_def l those_parse_frame_lines)
qed

section \<open>The frames a run writes\<close>

lemma sizes_left_uniform: "sizes_left (snd (uniform a b g)) = sizes_left g"
  by (simp add: sizes_left_def uniform_def)

lemma sizes_left_randint: "sizes_left (snd (randint a b g)) \<subseteq> sizes_left g"
  unfolding sizes_left_def by (rule randint_draws_subset)

lemma drawn_size_left: "fst (randint 0 (2 ^ 32) (snd (uniform a b g))) \<in> sizes_left g"
proof -
  have "shd (randint_draws g (0, 2 ^ 32)) \<in> sset (randint_draws g (0, 2 ^ 32))"
    by (rule shd_sset)
  then show ?thesis
    unfolding sizes_left_def randint_after_uniform(1) .
qed

lemma sizes_left_nonneg: "rand_contract g \<Longrightarrow> n \<in> sizes_left g \<Longrightarrow> 0 \<le> n"
  unfolding sizes_left_def using rand_contract_randint [of g 0 "2 ^ 32" n] by simp

lemma frame_of_run_mono:
  "sizes_left g' \<subseteq> sizes_left g \<Longrightarrow> frame_of_run g' data fr \<Longrightarrow> frame_of_run g data fr"
  by (auto simp: frame_of_run_def)

lemma frame_of_run_nonneg: "rand_contract g \<Longrightarrow> frame_of_run g data fr \<Longrightarrow> 0 \<le> frame_size fr"
  by (auto simp: frame_of_run_def dest: sizes_left_nonneg)

lemma frame_line_fields:
  "frame_line \<lparr>frame_size_valid = sv, frame_size = n, frame_data_valid = dv, frame_data = c\<rparr> =
     frame_text sv n dv c"
  by (simp add: frame_line_def)

lemma preamble_loop_trace:
  assumes "preamble_loop data ch g f = Some y"
  shows "rand_contract g \<longrightarrow>
     (\<exists>g' frs. y = (Normal, g', f @ text_of_lines (map frame_line frs)) \<and>
        rand_contract g' \<and> sizes_left g' \<subseteq> sizes_left g \<and>
        (\<forall>fr \<in> set frs. frame_of_run g data fr \<and> \<not> frame_data_valid fr) \<and>
        map frame_size (filter frame_size_valid frs) = [int (length data)])"
proof (rule preamble_loop.raw_induct
    [where P = "\<lambda>data ch g f y. rand_contract g \<longrightarrow>
     (\<exists>g' frs. y = (Normal, g', f @ text_of_lines (map frame_line frs)) \<and>
        rand_contract g' \<and> sizes_left g' \<subseteq> sizes_left g \<and>
        (\<forall>fr \<in> set frs. frame_of_run g data fr \<and> \<not> frame_data_valid fr) \<and>
        map frame_size (filter frame_size_valid frs) = [int (length data)])", OF _ assms],
    goal_cases)
  case (1 loop data ch g f y)
  let ?g1 = "snd (uniform 0 1 g)"
  let ?n = "fst (randint 0 (2 ^ 32) ?g1)"
  let ?g2 = "snd (randint 0 (2 ^ 32) ?g1)"
  show ?case
  proof (intro impI)
    assume g: "rand_contract g"
    have g1: "rand_contract ?g1" using g by (rule uniform_contract)
    show "\<exists>g' frs. y = (Normal, g', f @ text_of_lines (map frame_line frs)) \<and>
        rand_contract g' \<and> sizes_left g' \<subseteq> sizes_left g \<and>
        (\<forall>fr \<in> set frs. frame_of_run g data fr \<and> \<not> frame_data_valid fr) \<and>
        map frame_size (filter frame_size_valid frs) = [int (length data)]"
    proof (cases "fst (uniform 0 1 g) < ch")
      case True
      let ?fr = "\<lparr>frame_size_valid = True, frame_size = int (length data),
                   frame_data_valid = False, frame_data = 0\<rparr>"
      have "y = (Normal, ?g1, f @ frame_text True (int (length data)) False 0 @ nl)"
        using "1"(2) True by (simp add: generate_string_nul case_prod_beta)
      then have a: "y = (Normal, ?g1, f @ text_of_lines (map frame_line [?fr]))"
        by (simp add: text_of_lines_def frame_line_fields)
      have b: "\<forall>fr \<in> set [?fr]. frame_of_run g data fr \<and> \<not> frame_data_valid fr"
        by (simp add: frame_of_run_def)
      have c: "map frame_size (filter frame_size_valid [?fr]) = [int (length data)]"
        by simp
      have d: "sizes_left ?g1 \<subseteq> sizes_left g" by (simp add: sizes_left_uniform)
      show ?thesis
        by (rule exI [of _ ?g1], rule exI [of _ "[?fr]"]) (intro conjI a b c d g1)
    next
      case False
      let ?fr = "\<lparr>frame_size_valid = False, frame_size = ?n,
                   frame_data_valid = False, frame_data = 0\<rparr>"
      let ?f2 = "f @ frame_text False ?n False 0 @ nl"
      have step: "loop data ch ?g2 ?f2 = Some y"
        using "1"(2) False by (simp add: generate_string_nul case_prod_beta)
      have g2: "rand_contract ?g2" using g1 by (rule randint_contract)
      from "1"(1) [OF step] g2
      have "\<exists>g' frs. y = (Normal, g', ?f2 @ text_of_lines (map frame_line frs)) \<and>
        rand_contract g' \<and> sizes_left g' \<subseteq> sizes_left ?g2 \<and>
        (\<forall>fr \<in> set frs. frame_of_run ?g2 data fr \<and> \<not> frame_data_valid fr) \<and>
        map frame_size (filter frame_size_valid frs) = [int (length data)]"
        by (rule mp)
      then obtain g' frs where
        y: "y = (Normal, g', ?f2 @ text_of_lines (map frame_line frs))" and
        g': "rand_contract g'" and
        sub: "sizes_left g' \<subseteq> sizes_left ?g2" and
        frs: "\<forall>fr \<in> set frs. frame_of_run ?g2 data fr \<and> \<not> frame_data_valid fr" and
        one: "map frame_size (filter frame_size_valid frs) = [int (length data)]"
        by (elim exE conjE)
      have sub2: "sizes_left ?g2 \<subseteq> sizes_left g"
        using sizes_left_randint [of 0 "2 ^ 32" ?g1] by (simp add: sizes_left_uniform)
      have a: "y = (Normal, g', f @ text_of_lines (map frame_line (?fr # frs)))"
        using y by (simp add: text_of_lines_Cons frame_line_fields)
      have b: "\<forall>fr \<in> set (?fr # frs). frame_of_run g data fr \<and> \<not> frame_data_valid fr"
        using frs sub2 drawn_size_left [of 0 1 g]
        by (auto simp: frame_of_run_def)
      have c: "map frame_size (filter frame_size_valid (?fr # frs)) = [int (length data)]"
        using one by simp
      have d: "sizes_left g' \<subseteq> sizes_left g" using sub sub2 by (rule order_trans)
      show ?thesis
        by (rule exI [of _ g'], rule exI [of _ "?fr # frs"]) (intro conjI a b c d g')
    qed
  qed
qed

lemma char_loop_trace:
  assumes "char_loop c ch g f = Some y"
  shows "rand_contract g \<longrightarrow>
     (\<exists>g' frs. y = (Normal, g', f @ text_of_lines (map frame_line frs)) \<and>
        rand_contract g' \<and> sizes_left g' \<subseteq> sizes_left g \<and>
        (\<forall>fr \<in> set frs. \<not> frame_size_valid fr \<and> frame_size fr \<in> sizes_left g \<and>
           (frame_data fr = c \<or> frame_data fr \<le> 122)) \<and>
        map frame_data (filter frame_data_valid frs) = [c])"
proof (rule char_loop.raw_induct
    [where P = "\<lambda>c ch g f y. rand_contract g \<longrightarrow>
     (\<exists>g' frs. y = (Normal, g', f @ text_of_lines (map frame_line frs)) \<and>
        rand_contract g' \<and> sizes_left g' \<subseteq> sizes_left g \<and>
        (\<forall>fr \<in> set frs. \<not> frame_size_valid fr \<and> frame_size fr \<in> sizes_left g \<and>
           (frame_data fr = c \<or> frame_data fr \<le> 122)) \<and>
        map frame_data (filter frame_data_valid frs) = [c])", OF _ assms],
    goal_cases)
  case (1 loop c ch g f y)
  let ?g1 = "snd (uniform 0 1 g)"
  let ?n = "fst (randint 0 (2 ^ 32) ?g1)"
  let ?g2 = "snd (randint 0 (2 ^ 32) ?g1)"
  let ?k = "fst (randint 65 122 ?g2)"
  let ?g3 = "snd (randint 65 122 ?g2)"
  show ?case
  proof (intro impI)
    assume g: "rand_contract g"
    have g1: "rand_contract ?g1" using g by (rule uniform_contract)
    have g2: "rand_contract ?g2" using g1 by (rule randint_contract)
    have g3: "rand_contract ?g3" using g2 by (rule randint_contract)
    have n: "?n \<in> sizes_left g" by (rule drawn_size_left)
    have sub2: "sizes_left ?g2 \<subseteq> sizes_left g"
      using sizes_left_randint [of 0 "2 ^ 32" ?g1] by (simp add: sizes_left_uniform)
    show "\<exists>g' frs. y = (Normal, g', f @ text_of_lines (map frame_line frs)) \<and>
        rand_contract g' \<and> sizes_left g' \<subseteq> sizes_left g \<and>
        (\<forall>fr \<in> set frs. \<not> frame_size_valid fr \<and> frame_size fr \<in> sizes_left g \<and>
           (frame_data fr = c \<or> frame_data fr \<le> 122)) \<and>
        map frame_data (filter frame_data_valid frs) = [c]"
    proof (cases "fst (uniform 0 1 g) < ch")
      case True
      let ?fr = "\<lparr>frame_size_valid = False, frame_size = ?n,
                   frame_data_valid = True, frame_data = c\<rparr>"
      have "y = (Normal, ?g2, f @ frame_text False ?n True c @ nl)"
        using "1"(2) True by (simp add: generate_string_single case_prod_beta)
      then have a: "y = (Normal, ?g2, f @ text_of_lines (map frame_line [?fr]))"
        by (simp add: text_of_lines_def frame_line_fields)
      have b: "\<forall>fr \<in> set [?fr]. \<not> frame_size_valid fr \<and> frame_size fr \<in> sizes_left g \<and>
           (frame_data fr = c \<or> frame_data fr \<le> 122)"
        using n by simp
      have c: "map frame_data (filter frame_data_valid [?fr]) = [c]"
        by simp
      show ?thesis
        by (rule exI [of _ ?g2], rule exI [of _ "[?fr]"]) (intro conjI a b c g2 sub2)
    next
      case False
      let ?fr = "\<lparr>frame_size_valid = False, frame_size = ?n,
                   frame_data_valid = False, frame_data = nat ?k\<rparr>"
      let ?f2 = "f @ frame_text False ?n False (nat ?k) @ nl"
      have k: "65 \<le> ?k \<and> ?k \<le> 122" using g2 by (intro randint_range) simp_all
      then have chr: "chr ?k = Inr [nat ?k]" by (intro chr_in_range) simp_all
      have step: "loop c ch ?g3 ?f2 = Some y"
        using "1"(2) False chr by (simp add: generate_string_single case_prod_beta)
      from "1"(1) [OF step] g3
      have "\<exists>g' frs. y = (Normal, g', ?f2 @ text_of_lines (map frame_line frs)) \<and>
        rand_contract g' \<and> sizes_left g' \<subseteq> sizes_left ?g3 \<and>
        (\<forall>fr \<in> set frs. \<not> frame_size_valid fr \<and> frame_size fr \<in> sizes_left ?g3 \<and>
           (frame_data fr = c \<or> frame_data fr \<le> 122)) \<and>
        map frame_data (filter frame_data_valid frs) = [c]"
        by (rule mp)
      then obtain g' frs where
        y: "y = (Normal, g', ?f2 @ text_of_lines (map frame_line frs))" and
        g': "rand_contract g'" and
        sub: "sizes_left g' \<subseteq> sizes_left ?g3" and
        frs: "\<forall>fr \<in> set frs. \<not> frame_size_valid fr \<and> frame_size fr \<in> sizes_left ?g3 \<and>
           (frame_data fr = c \<or> frame_data fr \<le> 122)" and
        one: "map frame_data (filter frame_data_valid frs) = [c]"
        by (elim exE conjE)
      have sub3: "sizes_left ?g3 \<subseteq> sizes_left g"
        using sizes_left_randint [of 65 122 ?g2] sub2 by (rule order_trans)
      have a: "y = (Normal, g', f @ text_of_lines (map frame_line (?fr # frs)))"
        using y by (simp add: text_of_lines_Cons frame_line_fields)
      have b: "\<forall>fr \<in> set (?fr # frs). \<not> frame_size_valid fr \<and>
           frame_size fr \<in> sizes_left g \<and> (frame_data fr = c \<or> frame_data fr \<le> 122)"
        using frs sub3 n k by auto
      have c: "map frame_data (filter frame_data_valid (?fr # frs)) = [c]"
        using one by simp
      have d: "sizes_left g' \<subseteq> sizes_left g" using sub sub3 by (rule order_trans)
      show ?thesis
        by (rule exI [of _ g'], rule exI [of _ "?fr # frs"]) (intro conjI a b c d g')
    qed
  qed
qed

lemma for_loop_trace:
  assumes "for_loop cs ch g f = Some y" and "rand_contract g"
  shows "\<exists>g' frs. y = (Normal, g', f @ text_of_lines (map frame_line frs)) \<and>
        (\<forall>fr \<in> set frs. \<not> frame_size_valid fr \<and> frame_size fr \<in> sizes_left g \<and>
           (frame_data fr \<in> set cs \<or> frame_data fr \<le> 122)) \<and>
        map frame_data (filter frame_data_valid frs) = cs"
  using assms
proof (induction cs arbitrary: g f)
  case Nil
  then have "y = (Normal, g, f @ text_of_lines (map frame_line []))"
    by (simp add: text_of_lines_def)
  then show ?case
    by (intro exI [of _ g] exI [of _ "[]"]) simp
next
  case (Cons c cs)
  obtain y1 where y1: "char_loop c ch g f = Some y1"
    using Cons.prems(1) by (cases "char_loop c ch g f") auto
  from char_loop_trace [OF y1] Cons.prems(2)
  have "\<exists>g1 frs1. y1 = (Normal, g1, f @ text_of_lines (map frame_line frs1)) \<and>
    rand_contract g1 \<and> sizes_left g1 \<subseteq> sizes_left g \<and>
    (\<forall>fr \<in> set frs1. \<not> frame_size_valid fr \<and> frame_size fr \<in> sizes_left g \<and>
           (frame_data fr = c \<or> frame_data fr \<le> 122)) \<and>
    map frame_data (filter frame_data_valid frs1) = [c]"
    by (rule mp)
  then obtain g1 frs1 where
    y1': "y1 = (Normal, g1, f @ text_of_lines (map frame_line frs1))" and
    g1: "rand_contract g1" and
    sub: "sizes_left g1 \<subseteq> sizes_left g" and
    frs1: "\<forall>fr \<in> set frs1. \<not> frame_size_valid fr \<and> frame_size fr \<in> sizes_left g \<and>
           (frame_data fr = c \<or> frame_data fr \<le> 122)" and
    one: "map frame_data (filter frame_data_valid frs1) = [c]"
    by (elim exE conjE)
  have "for_loop cs ch g1 (f @ text_of_lines (map frame_line frs1)) = Some y"
    using Cons.prems(1) y1 y1' by simp
  from Cons.IH [OF this g1]
  obtain g' frs2 where
    y: "y = (Normal, g', (f @ text_of_lines (map frame_line frs1)) @
          text_of_lines (map frame_line frs2))" and
    frs2: "\<forall>fr \<in> set frs2. \<not> frame_size_valid fr \<and> frame_size fr \<in> sizes_left g1 \<and>
           (frame_data fr \<in> set cs \<or> frame_data fr \<le> 122)" and
    rest: "map frame_data (filter frame_data_valid frs2) = cs"
    by (elim exE conjE)
  have a: "y = (Normal, g', f @ text_of_lines (map frame_line (frs1 @ frs2)))"
    using y by (simp add: text_of_lines_append)
  have b: "\<forall>fr \<in> set (frs1 @ frs2). \<not> frame_size_valid fr \<and>
      frame_size fr \<in> sizes_left g \<and> (frame_data fr \<in> set (c # cs) \<or> frame_data fr \<le> 122)"
    using frs1 frs2 sub by auto
  have c: "map frame_data (filter frame_data_valid (frs1 @ frs2)) = c # cs"
    using one rest by simp
  show ?case
    by (rule exI [of _ g'], rule exI [of _ "frs1 @ frs2"]) (intro conjI a b c)
qed

lemma generate_datafile_trace:
  assumes "written filename (generate_datafile filename data ch g w) = Some (r, content)"
    and "rand_contract g"
  shows "r = Normal \<and>
     (\<exists>frs. content = text_of_lines ((str ''# '' @ data) # map frame_line frs) \<and>
        (\<forall>fr \<in> set frs. frame_of_run g data fr) \<and>
        map frame_size (filter frame_size_valid frs) = [int (length data)] \<and>
        map frame_data (filter frame_data_valid frs) = data)"
proof -
  let ?f0 = "str ''# '' @ data @ nl"
  obtain y1 where y1: "preamble_loop data ch g ?f0 = Some y1"
    using assms(1)
    by (cases "preamble_loop data ch g ?f0") (auto simp: generate_datafile_def written_def Let_def)
  from preamble_loop_trace [OF y1] assms(2)
  have "\<exists>g1 frs1. y1 = (Normal, g1, ?f0 @ text_of_lines (map frame_line frs1)) \<and>
    rand_contract g1 \<and> sizes_left g1 \<subseteq> sizes_left g \<and>
    (\<forall>fr \<in> set frs1. frame_of_run g data fr \<and> \<not> frame_data_valid fr) \<and>
    map frame_size (filter frame_size_valid frs1) = [int (length data)]"
    by (rule mp)
  then obtain g1 frs1 where
    y1': "y1 = (Normal, g1, ?f0 @ text_of_lines (map frame_line frs1))" and
    g1: "rand_contract g1" and
    sub: "sizes_left g1 \<subseteq> sizes_left g" and
    frs1: "\<forall>fr \<in> set frs1. frame_of_run g data fr \<and> \<not> frame_data_valid fr" and
    one: "map frame_size (filter frame_size_valid frs1) = [int (length data)]"
    by (elim exE conjE)
  let ?f1 = "?f0 @ text_of_lines (map frame_line frs1)"
  obtain y2 where y2: "for_loop data ch g1 ?f1 = Some y2"
    using assms(1) y1 y1'
    by (cases "for_loop data ch g1 ?f1") (auto simp: generate_datafile_def written_def Let_def)
  from for_loop_trace [OF y2 g1]
  obtain g2 frs2 where
    y2': "y2 = (Normal, g2, ?f1 @ text_of_lines (map frame_line frs2))" and
    frs2: "\<forall>fr \<in> set frs2. \<not> frame_size_valid fr \<and> frame_size fr \<in> sizes_left g1 \<and>
           (frame_data fr \<in> set data \<or> frame_data fr \<le> 122)" and
    dat: "map frame_data (filter frame_data_valid frs2) = data"
    by (elim exE conjE)
  have res: "r = Normal" "content = ?f1 @ text_of_lines (map frame_line frs2)"
    using assms(1) y1 y1' y2 y2' by (simp_all add: generate_datafile_def written_def Let_def)
  have a: "content = text_of_lines ((str ''# '' @ data) # map frame_line (frs1 @ frs2))"
    using res(2) by (simp add: text_of_lines_Cons text_of_lines_append)
  have b: "\<forall>fr \<in> set (frs1 @ frs2). frame_of_run g data fr"
    using frs1 frs2 sub by (auto simp: frame_of_run_def)
  have "filter frame_size_valid frs2 = []" using frs2 by (simp add: filter_empty_conv)
  then have c: "map frame_size (filter frame_size_valid (frs1 @ frs2)) = [int (length data)]"
    using one by simp
  have "filter frame_data_valid frs1 = []" using frs1 by (simp add: filter_empty_conv)
  then have d: "map frame_data (filter frame_data_valid (frs1 @ frs2)) = data"
    using dat by simp
  show ?thesis
    by (rule conjI [OF res(1)], rule exI [of _ "frs1 @ frs2"]) (intro conjI a b c d)
qed

section \<open>An example run with a noise frame\<close>

lemma example_run_text:
  "written (str ''hi'')
     (generate_datafile (str ''hi'') (str ''Hi'') (1 / 4) (example_rand [3 / 4] (1 / 8) 7)
        empty_world) =
   Some (Normal,
     str ''# '' @ str ''Hi'' @ nl @
     frame_text False 7 False 0 @ nl @
     frame_text True 2 False 0 @ nl @
     frame_text False 7 True 72 @ nl @
     frame_text False 7 True 105 @ nl)"
  by (simp add: generate_datafile_def written_def Let_def hi_fields(1)
      preamble_loop_retry preamble_loop_success char_loop_success
      uniform_def randint_def example_rand_def print_def empty_world_def)

lemma example_frames:
  "frame_text False 7 False 0 = str ''0_00000000000000000000000000000111_0_00000000''"
  "frame_text False 7 True 72 = str ''0_00000000000000000000000000000111_1_01001000''"
  "frame_text False 7 True 105 = str ''0_00000000000000000000000000000111_1_01101001''"
  by code_simp+

lemma example_run:
  "written (str ''hi'')
     (generate_datafile (str ''hi'') (str ''Hi'') (1 / 4) (example_rand [3 / 4] (1 / 8) 7)
        empty_world) =
   Some (Normal,
     text_of_lines
       [str ''# Hi'',
        str ''0_00000000000000000000000000000111_0_00000000'',
        str ''1_00000000000000000000000000000010_0_00000000'',
        str ''0_00000000000000000000000000000111_1_01001000'',
        str ''0_00000000000000000000000000000111_1_01101001''])"
  unfolding example_run_text example_frames hi_fields(2)
  by (simp add: text_of_lines_def str_def)

section \<open>The frames of a data file\<close>

text \<open>
  C1, as amended.  For every input string \<open>data\<close> of length \<open>n\<close> that contains no newline
  character and every \<^verbatim>\<open>random_value_chance\<close>, a run of \<^verbatim>\<open>generate_datafile\<close> that returns
  has completed normally and has written a file whose first line is \<^verbatim>\<open>#\<close>, a space and
  \<open>data\<close>, the only comment line of the file, and whose other lines are all frames; exactly
  one frame has \<^verbatim>\<open>size_valid\<close> set and its size field decodes to \<open>n\<close>; exactly \<open>n\<close> frames
  have \<^verbatim>\<open>data_valid\<close> set and their data fields, in file order, decode to the characters of
  \<open>data\<close>.
\<close>

theorem datafile_frames:
  assumes "rand_contract g"
    and "10 \<notin> set data"
    and "written filename (generate_datafile filename data random_value_chance g w) =
           Some (r, content)"
  shows "r = Normal \<and>
     (\<exists>frames. read_datafile content = Some (str ''# '' @ data, frames) \<and>
        filter is_comment (file_lines content) = [str ''# '' @ data] \<and>
        map frame_size (filter frame_size_valid frames) = [int (length data)] \<and>
        map frame_data (filter frame_data_valid frames) = data)"
proof -
  from generate_datafile_trace [OF assms(3,1)]
  have r: "r = Normal" and
    "\<exists>frs. content = text_of_lines ((str ''# '' @ data) # map frame_line frs) \<and>
        (\<forall>fr \<in> set frs. frame_of_run g data fr) \<and>
        map frame_size (filter frame_size_valid frs) = [int (length data)] \<and>
        map frame_data (filter frame_data_valid frs) = data"
    by (rule conjunct1, rule conjunct2)
  then obtain frs where
    content: "content = text_of_lines ((str ''# '' @ data) # map frame_line frs)" and
    frs: "\<forall>fr \<in> set frs. frame_of_run g data fr" and
    one: "map frame_size (filter frame_size_valid frs) = [int (length data)]" and
    dat: "map frame_data (filter frame_data_valid frs) = data"
    by (elim exE conjE)
  have first: "10 \<notin> set (str ''# '' @ data)" using assms(2) by (simp add: str_chars)
  have nn: "\<forall>fr \<in> set frs. 0 \<le> frame_size fr"
    using frs assms(1) by (auto dest: frame_of_run_nonneg)
  have a: "read_datafile content = Some (str ''# '' @ data, frs)"
    unfolding content using first nn by (rule read_datafile_text(2))
  have l: "file_lines content = (str ''# '' @ data) # map frame_line frs"
    unfolding content using first nn by (rule read_datafile_text(1))
  have "filter is_comment (map frame_line frs) = []"
    by (simp add: filter_empty_conv frame_line_not_comment)
  moreover have "is_comment (str ''# '' @ data)" by (simp add: is_comment_def str_def)
  ultimately have b: "filter is_comment (file_lines content) = [str ''# '' @ data]"
    unfolding l by simp
  show ?thesis
    by (rule conjI [OF r], rule exI [of _ frs]) (intro conjI a b one dat)
qed

text \<open>
  Witness for C1: the data \<^verbatim>\<open>Hi\<close> with a chance of one quarter; the first draw fails, so the
  file starts with a noise frame, and every later draw succeeds.
\<close>

theorem datafile_frames_witness:
  "rand_contract (example_rand [3 / 4] (1 / 8) 7) \<and>
   10 \<notin> set (str ''Hi'') \<and>
   written (str ''hi'')
     (generate_datafile (str ''hi'') (str ''Hi'') (1 / 4) (example_rand [3 / 4] (1 / 8) 7)
        empty_world) =
   Some (Normal,
     text_of_lines
       [str ''# Hi'',
        str ''0_00000000000000000000000000000111_0_00000000'',
        str ''1_00000000000000000000000000000010_0_00000000'',
        str ''0_00000000000000000000000000000111_1_01001000'',
        str ''0_00000000000000000000000000000111_1_01101001'']) \<and>
   (\<exists>frames.
      read_datafile
        (text_of_lines
          [str ''# Hi'',
           str ''0_00000000000000000000000000000111_0_00000000'',
           str ''1_00000000000000000000000000000010_0_00000000'',
           str ''0_00000000000000000000000000000111_1_01001000'',
           str ''0_00000000000000000000000000000111_1_01101001'']) =
        Some (str ''# '' @ str ''Hi'', frames) \<and>
      filter is_comment
        (file_lines
          (text_of_lines
            [str ''# Hi'',
             str ''0_00000000000000000000000000000111_0_00000000'',
             str ''1_00000000000000000000000000000010_0_00000000'',
             str ''0_00000000000000000000000000000111_1_01001000'',
             str ''0_00000000000000000000000000000111_1_01101001''])) =
        [str ''# '' @ str ''Hi''] \<and>
      map frame_size (filter frame_size_valid frames) = [int (length (str ''Hi''))] \<and>
      map frame_data (filter frame_data_valid frames) = str ''Hi'')"
proof -
  have g: "rand_contract (example_rand [3 / 4] (1 / 8) 7)"
    by (simp add: example_rand_contract)
  have d: "10 \<notin> set (str ''Hi'')" by (simp add: str_def)
  from datafile_frames [OF g d example_run]
  have c: "\<exists>frames.
      read_datafile
        (text_of_lines
          [str ''# Hi'',
           str ''0_00000000000000000000000000000111_0_00000000'',
           str ''1_00000000000000000000000000000010_0_00000000'',
           str ''0_00000000000000000000000000000111_1_01001000'',
           str ''0_00000000000000000000000000000111_1_01101001'']) =
        Some (str ''# '' @ str ''Hi'', frames) \<and>
      filter is_comment
        (file_lines
          (text_of_lines
            [str ''# Hi'',
             str ''0_00000000000000000000000000000111_0_00000000'',
             str ''1_00000000000000000000000000000010_0_00000000'',
             str ''0_00000000000000000000000000000111_1_01001000'',
             str ''0_00000000000000000000000000000111_1_01101001''])) =
        [str ''# '' @ str ''Hi''] \<and>
      map frame_size (filter frame_size_valid frames) = [int (length (str ''Hi''))] \<and>
      map frame_data (filter frame_data_valid frames) = str ''Hi''"
    by (rule conjunct2)
  show ?thesis by (intro conjI g d example_run c)
qed

text \<open>
  Counterexample to C1 as stated: for the data made of one newline the first line of the file
  is \<^verbatim>\<open>#\<close> and a space, which is not \<^verbatim>\<open>#\<close>, a space and the data, and the second line is
  empty, which is no frame.
\<close>

theorem datafile_frames_counterexample:
  "rand_contract (example_rand [] (1 / 2) 0) \<and>
   written_lines (str ''out.txt'')
     (generate_datafile (str ''out.txt'') nl 1 (example_rand [] (1 / 2) 0) empty_world) =
   Some (Normal,
     [str ''# '',
      [],
      str ''1_00000000000000000000000000000001_0_00000000'',
      str ''0_00000000000000000000000000000000_1_00001010'']) \<and>
   str ''# '' \<noteq> str ''# '' @ nl \<and>
   parse_frame [] = None"
proof -
  have g: "rand_contract (example_rand [] (1 / 2) 0)"
    by (simp add: example_rand_contract)
  have "written (str ''out.txt'')
     (generate_datafile (str ''out.txt'') nl 1 (example_rand [] (1 / 2) 0) empty_world) =
     Some (Normal, str ''# '' @ nl @ nl @ frame_text True 1 False 0 @ nl @
       frame_text False 0 True 10 @ nl)"
    using chance_one_run [OF g, of "str ''out.txt''" nl empty_world]
    by (simp add: nl_def example_rand_def)
  moreover have "file_lines (str ''# '' @ nl @ nl @ frame_text True 1 False 0 @ nl @
       frame_text False 0 True 10 @ nl) =
     [str ''# '', [],
      str ''1_00000000000000000000000000000001_0_00000000'',
      str ''0_00000000000000000000000000000000_1_00001010'']"
    by code_simp
  moreover have "str ''# '' \<noteq> str ''# '' @ nl" by (simp add: nl_def)
  moreover have "parse_frame [] = None" by code_simp
  ultimately show ?thesis using g by (simp add: written_lines_def)
qed

section \<open>The lines of a data file\<close>

text \<open>
  C2, as amended.  For every input string shorter than \<open>2^32\<close> whose characters have code
  points below 256 and are not newlines, every \<^verbatim>\<open>random_value_chance\<close> and every sequence of
  draws in which \<^verbatim>\<open>randint(0, 2**32)\<close> stays below \<open>2^32\<close>, a run of \<^verbatim>\<open>generate_datafile\<close>
  that returns has completed normally, and every line of its file after the comment line is
  a frame string of exactly 45 characters that matches the grammar.
\<close>

theorem datafile_lines_wellformed:
  assumes "rand_contract g"
    and "\<forall>n \<in> sset (randint_draws g (0, 2 ^ 32)). n < 2 ^ 32"
    and "\<forall>c \<in> set data. c < 256 \<and> c \<noteq> 10"
    and "length data < 2 ^ 32"
    and "written filename (generate_datafile filename data random_value_chance g w) =
           Some (r, content)"
  shows "r = Normal \<and>
     (\<exists>rest. file_lines content = (str ''# '' @ data) # rest \<and>
        (\<forall>l \<in> set rest. length l = 45 \<and> frame_grammar l))"
proof -
  from generate_datafile_trace [OF assms(5,1)]
  have r: "r = Normal" and
    "\<exists>frs. content = text_of_lines ((str ''# '' @ data) # map frame_line frs) \<and>
        (\<forall>fr \<in> set frs. frame_of_run g data fr) \<and>
        map frame_size (filter frame_size_valid frs) = [int (length data)] \<and>
        map frame_data (filter frame_data_valid frs) = data"
    by (rule conjunct1, rule conjunct2)
  then obtain frs where
    content: "content = text_of_lines ((str ''# '' @ data) # map frame_line frs)" and
    frs: "\<forall>fr \<in> set frs. frame_of_run g data fr"
    by (elim exE conjE)
  have first: "10 \<notin> set (str ''# '' @ data)" using assms(3) by (auto simp: str_chars)
  have nn: "\<forall>fr \<in> set frs. 0 \<le> frame_size fr"
    using frs assms(1) by (auto dest: frame_of_run_nonneg)
  have l: "file_lines content = (str ''# '' @ data) # map frame_line frs"
    unfolding content using first nn by (rule read_datafile_text(1))
  have "frame_grammar (frame_line fr)" if "fr \<in> set frs" for fr
  proof -
    have f: "frame_of_run g data fr" using frs that by blast
    have "int (length data) < 2 ^ 32" using assms(4) by (simp add: of_nat_less_numeral_power_cancel_iff)
    then have "frame_size fr < 2 ^ 32"
      using f assms(2) by (auto simp: frame_of_run_def sizes_left_def)
    moreover have "frame_data fr < 256"
      using f assms(3) by (auto simp: frame_of_run_def)
    moreover have "0 \<le> frame_size fr" using nn that by blast
    ultimately show ?thesis by (intro frame_line_grammar)
  qed
  then have "\<forall>l \<in> set (map frame_line frs). length l = 45 \<and> frame_grammar l"
    by (auto simp: frame_grammar_length)
  then show ?thesis using r l by blast
qed

text \<open>Witness for C2: the run with a noise frame, on the data \<^verbatim>\<open>Hi\<close>.\<close>

theorem datafile_lines_wellformed_witness:
  "rand_contract (example_rand [3 / 4] (1 / 8) 7) \<and>
   sset (randint_draws (example_rand [3 / 4] (1 / 8) 7) (0, 2 ^ 32)) = {7} \<and>
   list_all (\<lambda>c. c < 256 \<and> c \<noteq> 10) (str ''Hi'') \<and>
   length (str ''Hi'') < 2 ^ 32 \<and>
   written (str ''hi'')
     (generate_datafile (str ''hi'') (str ''Hi'') (1 / 4) (example_rand [3 / 4] (1 / 8) 7)
        empty_world) =
   Some (Normal,
     text_of_lines
       [str ''# Hi'',
        str ''0_00000000000000000000000000000111_0_00000000'',
        str ''1_00000000000000000000000000000010_0_00000000'',
        str ''0_00000000000000000000000000000111_1_01001000'',
        str ''0_00000000000000000000000000000111_1_01101001'']) \<and>
   (\<exists>rest.
      file_lines
        (text_of_lines
          [str ''# Hi'',
           str ''0_00000000000000000000000000000111_0_00000000'',
           str ''1_00000000000000000000000000000010_0_00000000'',
           str ''0_00000000000000000000000000000111_1_01001000'',
           str ''0_00000000000000000000000000000111_1_01101001'']) =
        (str ''# '' @ str ''Hi'') # rest \<and>
      (\<forall>l \<in> set rest. length l = 45 \<and> frame_grammar l))"
proof -
  have g: "rand_contract (example_rand [3 / 4] (1 / 8) 7)"
    by (simp add: example_rand_contract)
  have s: "\<forall>n \<in> sset (randint_draws (example_rand [3 / 4] (1 / 8) 7) (0, 2 ^ 32)). n < 2 ^ 32"
    by (simp add: example_rand_def)
  have d: "\<forall>c \<in> set (str ''Hi''). c < 256 \<and> c \<noteq> 10" by (simp add: str_def)
  have n: "length (str ''Hi'') < 2 ^ 32" by (simp add: str_def)
  from datafile_lines_wellformed [OF g s d n example_run]
  have c: "\<exists>rest.
      file_lines
        (text_of_lines
          [str ''# Hi'',
           str ''0_00000000000000000000000000000111_0_00000000'',
           str ''1_00000000000000000000000000000010_0_00000000'',
           str ''0_00000000000000000000000000000111_1_01001000'',
           str ''0_00000000000000000000000000000111_1_01101001'']) =
        (str ''# '' @ str ''Hi'') # rest \<and>
      (\<forall>l \<in> set rest. length l = 45 \<and> frame_grammar l)"
    by (rule conjunct2)
  have s': "sset (randint_draws (example_rand [3 / 4] (1 / 8) 7) (0, 2 ^ 32)) = {7}"
    by (simp add: example_rand_def)
  have d': "list_all (\<lambda>c. c < 256 \<and> c \<noteq> 10) (str ''Hi'')"
    by (simp add: str_def)
  show ?thesis by (intro conjI g s' d' n example_run c)
qed

text \<open>
  Counterexample to C2 as stated: for the data \<^verbatim>\<open>Hi\<close> and a chance of one, the second line
  of the file, a well-formed frame, has 45 characters and not 44.
\<close>

theorem datafile_lines_wellformed_counterexample:
  "rand_contract (example_rand [] (1 / 2) 0) \<and>
   written_lines (str ''out.txt'')
     (generate_datafile (str ''out.txt'') (str ''Hi'') 1 (example_rand [] (1 / 2) 0)
        empty_world) =
   Some (Normal,
     [str ''# Hi'',
      str ''1_00000000000000000000000000000010_0_00000000'',
      str ''0_00000000000000000000000000000000_1_01001000'',
      str ''0_00000000000000000000000000000000_1_01101001'']) \<and>
   length (str ''1_00000000000000000000000000000010_0_00000000'') = 45 \<and>
   length (str ''1_00000000000000000000000000000010_0_00000000'') \<noteq> 44"
  using hi_lines [of "example_rand [] (1 / 2) 0" 0 0 "str ''out.txt''" empty_world]
  by (simp add: example_rand_contract example_draws example_fields str_def)

section \<open>The largest size \<^verbatim>\<open>randint(0, 2**32)\<close> can return\<close>

lemma bin_digits_double: "0 < n \<Longrightarrow> bin_digits (2 * n) = bin_digits n @ [48]"
  by (simp add: bin_digits_large)

lemma bin_digits_power_2: "bin_digits (2 ^ k) = 49 # replicate k 48"
proof (induction k)
  case 0
  then show ?case by (simp add: bin_digits_small)
next
  case (Suc k)
  have "bin_digits (2 * 2 ^ k) = bin_digits (2 ^ k) @ [48]"
    by (rule bin_digits_double) simp
  then show ?case using Suc by (simp add: replicate_append_same)
qed

lemma overflow_digits: "49 # replicate 32 48 = str ''100000000000000000000000000000000''"
  by code_simp

lemma overflow_frame:
  "frame_text False 4294967296 False 0 = str ''0_100000000000000000000000000000000_0_00000000''"
proof -
  have "bin_digits (nat 4294967296) = str ''100000000000000000000000000000000''"
    using bin_digits_power_2 [of 32] by (simp add: overflow_digits)
  moreover have "format_zero_right 8 (bin_digits 0) = str ''00000000''" by code_simp
  ultimately show ?thesis
    by (simp add: frame_text_nonneg format_zero_right_def flag_def str_def)
qed

text \<open>
  \<^verbatim>\<open>randint(0, 2**32)\<close> includes its upper end.  When a noise frame draws \<open>2^32\<close>, its size
  field has 33 characters: the line has 46 characters and does not match the grammar.
\<close>

lemma noise_size_overflow:
  "rand_contract (example_rand [3 / 4] (1 / 8) (2 ^ 32)) \<and>
   written_lines (str ''out.txt'')
     (generate_datafile (str ''out.txt'') [] (1 / 4) (example_rand [3 / 4] (1 / 8) (2 ^ 32))
        empty_world) =
   Some (Normal,
     [str ''# '',
      str ''0_100000000000000000000000000000000_0_00000000'',
      str ''1_00000000000000000000000000000000_0_00000000'']) \<and>
   length (str ''0_100000000000000000000000000000000_0_00000000'') = 46 \<and>
   \<not> frame_grammar (str ''0_100000000000000000000000000000000_0_00000000'')"
proof -
  have g: "rand_contract (example_rand [3 / 4] (1 / 8) (2 ^ 32))"
    by (simp add: example_rand_contract)
  have "written (str ''out.txt'')
     (generate_datafile (str ''out.txt'') [] (1 / 4) (example_rand [3 / 4] (1 / 8) (2 ^ 32))
        empty_world) =
   Some (Normal, str ''# '' @ nl @ frame_text False (2 ^ 32) False 0 @ nl @
     frame_text True 0 False 0 @ nl)"
    by (simp add: generate_datafile_def written_def Let_def
      preamble_loop_retry preamble_loop_success
      uniform_def randint_def example_rand_def print_def empty_world_def)
  moreover have "frame_text True 0 False 0 = str ''1_00000000000000000000000000000000_0_00000000''"
    by code_simp
  moreover have "file_lines (str ''# '' @ nl @
      str ''0_100000000000000000000000000000000_0_00000000'' @ nl @
      str ''1_00000000000000000000000000000000_0_00000000'' @ nl) =
     [str ''# '',
      str ''0_100000000000000000000000000000000_0_00000000'',
      str ''1_00000000000000000000000000000000_0_00000000'']"
    by code_simp
  moreover have "length (str ''0_100000000000000000000000000000000_0_00000000'') = 46"
    by code_simp
  moreover have "\<not> frame_grammar (str ''0_100000000000000000000000000000000_0_00000000'')"
    by code_simp
  ultimately show ?thesis using g by (simp add: written_lines_def overflow_frame)
qed

end
